theory Spec2Isabelle
  imports Main "HOL-Library.Word"
begin

section \<open>Confidential amounts: blinding and unblinding of transaction outputs\<close>

text \<open>
  A shallow embedding of \<^verbatim>\<open>src/blind.cpp\<close>: \<^verbatim>\<open>UnblindOutput\<close> and
  \<^verbatim>\<open>BlindOutputs\<close>. The elliptic-curve library and the host's key, hash,
  random, configuration and amount facilities are not part of the repository; they enter
  the model as the fields of one record of external operations, and every theorem holds
  for any such record unless it states a contract of an operation as a premise.
\<close>

subsection \<open>Data\<close>

type_synonym byte = "8 word"
type_synonym bytes = "byte list"

text \<open>\<^verbatim>\<open>CAmount\<close> is \<^verbatim>\<open>int64_t\<close>; \<open>sint\<close> reads it. The same 64 bits
  read by \<open>unat\<close> are the \<^verbatim>\<open>uint64_t\<close> of the library interface, so the casts
  \<^verbatim>\<open>(uint64_t)MAX_MONEY\<close> and \<^verbatim>\<open>(CAmount)amount\<close> are the identity on
  the word, and \<open><\<close> on words is the unsigned comparison.\<close>

type_synonym CAmount = "64 word"
type_synonym uint64_t = "64 word"

text \<open>\<^verbatim>\<open>CTxOutValue\<close>: the three byte vectors the source reads and writes.
  Whether a value is explicit (\<^verbatim>\<open>IsAmount\<close>) and which amount it holds
  (\<^verbatim>\<open>GetAmount\<close>) is decided by the host's class, an external operation.\<close>

record CTxOutValue =
  vchCommitment :: bytes
  vchRangeproof :: bytes
  vchNonceCommitment :: bytes

record CTxOut =
  nValue :: CTxOutValue
  scriptPubKey :: bytes

record 'i CMutableTransaction =
  vin :: "'i list"
  vout :: "CTxOut list"

text \<open>Arguments and results of the two range-proof primitives. The context argument
  is the process-wide handle (\<open>None\<close> is \<^verbatim>\<open>NULL\<close>). The length of a proof is a
  byte count and is kept as a natural number. Of what \<^verbatim>\<open>secp256k1_rangeproof_rewind\<close>
  writes, the message, its size and the two bounds are never read by the source and are
  left out.\<close>

record sign_args =
  sa_plen :: nat
  sa_min_value :: uint64_t
  sa_commit :: bytes
  sa_blind :: bytes
  sa_nonce :: bytes
  sa_exp :: int
  sa_min_bits :: int
  sa_value :: uint64_t

record sign_result =
  sg_res :: int
  sg_plen :: nat
  sg_proof :: bytes

record rewind_result =
  rw_res :: int
  rw_blind :: bytes
  rw_value :: uint64_t

subsection \<open>External operations\<close>

text \<open>
  \<^item> the library: \<open>pedersen_commit\<close>, \<open>pedersen_blind_sum\<close> (\<open>None\<close> when the
    C function returns 0, otherwise the bytes it writes), \<open>rangeproof_sign\<close>,
    \<open>rangeproof_rewind\<close>;
  \<^item> public keys: the constructor from a byte vector, \<^verbatim>\<open>IsValid\<close>, the
    bytes \<^verbatim>\<open>begin() .. begin() + size()\<close> (\<open>pk_bytes\<close>), and the first 33
    bytes of the key's storage (\<open>pk_first33\<close>, what the \<^verbatim>\<open>memcpy\<close> of the
    source copies);
  \<^item> private keys: \<^verbatim>\<open>MakeNewKey\<close>, \<^verbatim>\<open>GetPubKey\<close>, \<^verbatim>\<open>ECDH\<close>;
  \<^item> \<^verbatim>\<open>CHash256\<close>, \<^verbatim>\<open>GetRandBytes\<close> (both random operations thread
    the state \<open>'rng\<close> of the random source), \<^verbatim>\<open>MAX_MONEY\<close>,
    \<^verbatim>\<open>MoneyRange\<close>, and the two methods of \<^verbatim>\<open>CTxOutValue\<close>.
\<close>

record ('ctx, 'key, 'pk, 'rng) externals =
  pedersen_commit :: "'ctx option \<Rightarrow> bytes \<Rightarrow> uint64_t \<Rightarrow> bytes option"
  pedersen_blind_sum :: "'ctx option \<Rightarrow> bytes list \<Rightarrow> nat \<Rightarrow> nat \<Rightarrow> bytes option"
  rangeproof_sign :: "'ctx option \<Rightarrow> sign_args \<Rightarrow> sign_result"
  rangeproof_rewind :: "'ctx option \<Rightarrow> bytes \<Rightarrow> bytes \<Rightarrow> bytes \<Rightarrow> rewind_result"
  CPubKey :: "bytes \<Rightarrow> 'pk"
  IsValid :: "'pk \<Rightarrow> bool"
  pk_bytes :: "'pk \<Rightarrow> bytes"
  pk_first33 :: "'pk \<Rightarrow> bytes"
  MakeNewKey :: "'rng \<Rightarrow> bool \<Rightarrow> 'key \<times> 'rng"
  GetPubKey :: "'key \<Rightarrow> 'pk"
  ECDH :: "'key \<Rightarrow> 'pk \<Rightarrow> 'pk"
  CHash256 :: "bytes \<Rightarrow> bytes"
  GetRandBytes :: "'rng \<Rightarrow> nat \<Rightarrow> bytes \<times> 'rng"
  MAX_MONEY :: CAmount
  MoneyRange :: "CAmount \<Rightarrow> bool"
  IsAmount :: "CTxOutValue \<Rightarrow> bool"
  GetAmount :: "CTxOutValue \<Rightarrow> CAmount"

subsection \<open>Vectors and buffers\<close>

text \<open>\<^verbatim>\<open>std::vector::resize\<close>: truncate, or pad with zero bytes.\<close>

definition resize :: "nat \<Rightarrow> bytes \<Rightarrow> bytes" where
  "resize n v = take n v @ replicate (n - length v) 0"

text \<open>A callee that writes the bytes \<open>src\<close> through a pointer to the first element
  of the buffer \<open>dst\<close>. The source always passes a buffer that is large enough for a
  callee that keeps its contract.\<close>

definition write_at0 :: "bytes \<Rightarrow> bytes \<Rightarrow> bytes" where
  "write_at0 src dst = src @ drop (length src) dst"

subsection \<open>UnblindOutput\<close>

text \<open>The two reference parameters \<^verbatim>\<open>amount_out\<close> and
  \<^verbatim>\<open>blinding_factor_out\<close> are passed in and returned; \<open>ret\<close> is the
  \<^verbatim>\<open>int\<close> the function returns (-1 not blinded, 0 failure, 1 success).\<close>

record unblind_result =
  ret :: int
  amount_out :: CAmount
  blinding_factor_out :: bytes

definition UnblindOutput ::
  "('ctx, 'key, 'pk, 'rng) externals \<Rightarrow> 'ctx option \<Rightarrow> 'key \<Rightarrow> CTxOut \<Rightarrow>
     CAmount \<Rightarrow> bytes \<Rightarrow> unblind_result" where
  "UnblindOutput E ctx key txout amount_in blinding_factor_in =
    (if IsAmount E (nValue txout) then
       \<lparr>ret = - 1, amount_out = GetAmount E (nValue txout),
        blinding_factor_out = resize 0 blinding_factor_in\<rparr>
     else
       let ephemeral_key = CPubKey E (vchNonceCommitment (nValue txout)) in
       if \<not> IsValid E ephemeral_key then
         \<lparr>ret = 0, amount_out = amount_in, blinding_factor_out = blinding_factor_in\<rparr>
       else
         let nonce_key = ECDH E key ephemeral_key;
             nonce = CHash256 E (pk_bytes E nonce_key);
             buf = resize 32 blinding_factor_in;
             r = rangeproof_rewind E ctx nonce (vchCommitment (nValue txout))
                   (vchRangeproof (nValue txout));
             buf' = write_at0 (rw_blind r) buf;
             res = rw_res r;
             amount = rw_value r
         in
           if res = 0 \<or> amount > MAX_MONEY E \<or> \<not> MoneyRange E amount then
             \<lparr>ret = (if res \<noteq> 0 then 1 else 0), amount_out = 0,
              blinding_factor_out = resize 0 buf'\<rparr>
           else
             \<lparr>ret = (if res \<noteq> 0 then 1 else 0), amount_out = amount,
              blinding_factor_out = buf'\<rparr>)"

subsection \<open>Runtime configuration\<close>

text \<open>Modelled from the spec: the host's runtime configuration lookup (\<^verbatim>\<open>GetArg\<close>
  of the host's utilities, not part of the repository), "a runtime configuration lookup
  supporting named integer options with defaults": the configured value of the option
  when it is set, the default passed by the caller otherwise. The host's lookup returns
  a 64-bit integer, which the source narrows with the cast \<^verbatim>\<open>(int)\<close>.\<close>

type_synonym config = "string \<Rightarrow> 64 word option"

definition GetArg :: "config \<Rightarrow> string \<Rightarrow> 64 word \<Rightarrow> 64 word" where
  "GetArg cfg name dflt = (case cfg name of None \<Rightarrow> dflt | Some v \<Rightarrow> v)"

text \<open>The cast \<^verbatim>\<open>(int)\<close> of a 64-bit value: the low 32 bits, read signed.\<close>

definition to_int :: "64 word \<Rightarrow> int" where
  "to_int v = sint (ucast v :: 32 word)"

text \<open>The two arguments of line 131:
  \<^verbatim>\<open>std::min(std::max((int)GetArg("-ct_exponent", 0), -1), 18)\<close> and
  \<^verbatim>\<open>std::min(std::max((int)GetArg("-ct_bits", 32), 1), 51)\<close>.\<close>

definition ct_exponent :: "config \<Rightarrow> int" where
  "ct_exponent cfg = min (max (to_int (GetArg cfg ''-ct_exponent'' 0)) (- 1)) 18"

definition ct_bits :: "config \<Rightarrow> int" where
  "ct_bits cfg = min (max (to_int (GetArg cfg ''-ct_bits'' 32)) 1) 51"

subsection \<open>BlindOutputs\<close>

text \<open>An \<^verbatim>\<open>assert\<close> that fails aborts the process; the model returns the state
  the call had reached, so that what an aborted call had already written stays visible.\<close>

datatype 's outcome = Return 's | Abort 's

fun state_of :: "'s outcome \<Rightarrow> 's" where
  "state_of (Return s) = s"
| "state_of (Abort s) = s"

fun returned :: "'s outcome \<Rightarrow> bool" where
  "returned (Return s) = True"
| "returned (Abort s) = False"

text \<open>The local variables of the call, the transaction it mutates and the state of the
  random source. The four counters are \<^verbatim>\<open>int\<close> in the source; they count entries
  of the argument vectors and are natural numbers here. \<open>blindptrs\<close> holds the
  pointed-to factors: every pointee is written before its pointer is pushed and never
  afterwards. \<open>history\<close> is an auxiliary
  variable that no computation reads: one entry per output the third loop has rewritten,
  with the branch of line 104 that produced its factor, the factor, and the arguments and
  the result of the call of \<^verbatim>\<open>secp256k1_rangeproof_sign\<close>.\<close>

datatype factor_source = Derived | Sampled

record blind_event =
  ev_nOut :: nat
  ev_source :: factor_source
  ev_factor :: bytes
  ev_args :: sign_args
  ev_result :: sign_result

record ('i, 'rng) blind_state =
  tx :: "'i CMutableTransaction"
  blindptrs :: "bytes list"
  nBlindsIn :: nat
  nBlindsOut :: nat
  nToBlind :: nat
  nBlinded :: nat
  rng :: 'rng
  history :: "blind_event list"

text \<open>Lines 63 to 65.\<close>

definition size_asserts ::
  "'i CMutableTransaction \<Rightarrow> bytes list \<Rightarrow> bytes list \<Rightarrow> 'pk list \<Rightarrow> bool" where
  "size_asserts t input_blinding_factors output_blinding_factors output_pubkeys =
    (length (vout t) = length output_blinding_factors \<and>
     length (vout t) = length output_pubkeys \<and>
     length (vin t) = length input_blinding_factors)"

text \<open>The first loop (lines 71 to 77), over the indices it is given.\<close>

fun collect_inputs ::
  "bytes list \<Rightarrow> nat list \<Rightarrow> ('i, 'rng) blind_state \<Rightarrow> ('i, 'rng) blind_state outcome" where
  "collect_inputs ibf [] s = Return s"
| "collect_inputs ibf (nIn # rest) s =
    (if length (ibf ! nIn) \<noteq> 0 then
       (if length (ibf ! nIn) = 32 then
          collect_inputs ibf rest
            (s\<lparr>blindptrs := blindptrs s @ [ibf ! nIn], nBlindsIn := nBlindsIn s + 1\<rparr>)
        else Abort s)
     else collect_inputs ibf rest s)"

text \<open>The second loop (lines 81 to 92).\<close>

fun count_outputs ::
  "('ctx, 'key, 'pk, 'rng) externals \<Rightarrow> bytes list \<Rightarrow> 'pk list \<Rightarrow> nat list \<Rightarrow>
     ('i, 'rng) blind_state \<Rightarrow> ('i, 'rng) blind_state outcome" where
  "count_outputs E obf pks [] s = Return s"
| "count_outputs E obf pks (nOut # rest) s =
    (if (length (obf ! nOut) \<noteq> 0) \<noteq> (\<not> IsAmount E (nValue (vout (tx s) ! nOut))) then Abort s
     else if length (obf ! nOut) \<noteq> 0 then
       (if length (obf ! nOut) = 32 then
          count_outputs E obf pks rest
            (s\<lparr>blindptrs := blindptrs s @ [obf ! nOut], nBlindsOut := nBlindsOut s + 1\<rparr>)
        else Abort s)
     else if IsValid E (pks ! nOut) then
       count_outputs E obf pks rest (s\<lparr>nToBlind := nToBlind s + 1\<rparr>)
     else count_outputs E obf pks rest s)"

text \<open>Lines 104 to 111: the factor of the output being blinded, with the branch that
  produced it and the state of the random source afterwards. \<open>None\<close> when the
  assertion on \<^verbatim>\<open>secp256k1_pedersen_blind_sum\<close> fails.\<close>

definition new_blind ::
  "('ctx, 'key, 'pk, 'rng) externals \<Rightarrow> 'ctx option \<Rightarrow> ('i, 'rng) blind_state \<Rightarrow>
     (factor_source \<times> bytes \<times> 'rng) option" where
  "new_blind E ctx s =
    (if nBlinded s + 1 = nToBlind s then
       (case pedersen_blind_sum E ctx (blindptrs s) (nBlindsOut s + nBlindsIn s) (nBlindsIn s) of
          None \<Rightarrow> None
        | Some b \<Rightarrow> Some (Derived, b, rng s))
     else
       (case GetRandBytes E (rng s) 32 of (b, g) \<Rightarrow> Some (Sampled, b, g)))"

text \<open>Lines 114 to 132 on the value \<open>v\<close> of the output, for the recipient key
  \<open>pk\<close> and the factor \<open>b\<close>: the commitment, the ephemeral key, the nonce and the
  range proof. \<open>None\<close> when the assertion on \<^verbatim>\<open>secp256k1_pedersen_commit\<close>
  fails, before anything is written.\<close>

definition create_blinded_value ::
  "('ctx, 'key, 'pk, 'rng) externals \<Rightarrow> 'ctx option \<Rightarrow> config \<Rightarrow> 'pk \<Rightarrow> bytes \<Rightarrow> 'rng \<Rightarrow>
     CTxOutValue \<Rightarrow> (CTxOutValue \<times> 'rng \<times> sign_args \<times> sign_result) option" where
  "create_blinded_value E ctx cfg pk b g v =
    (let amount = GetAmount E v in
     case pedersen_commit E ctx b amount of
       None \<Rightarrow> None
     | Some c \<Rightarrow>
        (case MakeNewKey E g True of (ephemeral_key, g') \<Rightarrow>
          let v1 = v\<lparr>vchCommitment := write_at0 c (vchCommitment v)\<rparr>;
              ephemeral_pubkey = GetPubKey E ephemeral_key;
              v2 = v1\<lparr>vchNonceCommitment :=
                     write_at0 (pk_first33 E ephemeral_pubkey) (resize 33 (vchNonceCommitment v1))\<rparr>;
              nonce_key = ECDH E ephemeral_key pk;
              nonce = CHash256 E (pk_bytes E nonce_key);
              v3 = v2\<lparr>vchRangeproof := resize 5134 (vchRangeproof v2)\<rparr>;
              args = \<lparr>sa_plen = 5134, sa_min_value = 0, sa_commit = vchCommitment v3,
                      sa_blind = b, sa_nonce = nonce, sa_exp = ct_exponent cfg,
                      sa_min_bits = ct_bits cfg, sa_value = amount\<rparr>;
              r = rangeproof_sign E ctx args;
              v4 = v3\<lparr>vchRangeproof :=
                     resize (sg_plen r) (write_at0 (sg_proof r) (vchRangeproof v3))\<rparr>
          in Some (v4, g', args, r)))"

definition set_value :: "nat \<Rightarrow> CTxOutValue \<Rightarrow> 'i CMutableTransaction \<Rightarrow> 'i CMutableTransaction" where
  "set_value nOut v t = t\<lparr>vout := (vout t)[nOut := (vout t ! nOut)\<lparr>nValue := v\<rparr>]\<rparr>"

text \<open>Lines 107 (or 110) and 112: the new factor is pushed and counted.\<close>

definition push_blind :: "bytes \<Rightarrow> 'rng \<Rightarrow> ('i, 'rng) blind_state \<Rightarrow> ('i, 'rng) blind_state" where
  "push_blind b g s =
     s\<lparr>blindptrs := blindptrs s @ [b], nBlindsOut := nBlindsOut s + 1,
       nBlinded := nBlinded s + 1, rng := g\<rparr>"

text \<open>The state once the value of the output \<open>nOut\<close> has been rewritten.\<close>

definition store_value ::
  "nat \<Rightarrow> CTxOutValue \<Rightarrow> 'rng \<Rightarrow> blind_event \<Rightarrow> ('i, 'rng) blind_state \<Rightarrow> ('i, 'rng) blind_state" where
  "store_value nOut v g ev s =
     s\<lparr>tx := set_value nOut v (tx s), rng := g, history := history s @ [ev]\<rparr>"

text \<open>The body of the third loop (lines 102 to 135) for the output \<open>nOut\<close>.\<close>

definition blind_output ::
  "('ctx, 'key, 'pk, 'rng) externals \<Rightarrow> 'ctx option \<Rightarrow> config \<Rightarrow> 'pk list \<Rightarrow> nat \<Rightarrow>
     ('i, 'rng) blind_state \<Rightarrow> ('i, 'rng) blind_state outcome" where
  "blind_output E ctx cfg pks nOut s =
    (let v = nValue (vout (tx s) ! nOut) in
     if IsAmount E v \<and> IsValid E (pks ! nOut) then
       (case new_blind E ctx s of
          None \<Rightarrow> Abort s
        | Some (src, b, g) \<Rightarrow>
           let s1 = push_blind b g s in
             (case create_blinded_value E ctx cfg (pks ! nOut) (last (blindptrs s1)) g v of
                None \<Rightarrow> Abort s1
              | Some (v', g', args, r) \<Rightarrow>
                 let s2 = store_value nOut v' g'
                            \<lparr>ev_nOut = nOut, ev_source = src, ev_factor = b,
                             ev_args = args, ev_result = r\<rparr> s1
                 in if sg_res r = 0 then Abort s2 else Return s2))
     else Return s)"

text \<open>The third loop (lines 101 to 136).\<close>

fun blind_loop ::
  "('ctx, 'key, 'pk, 'rng) externals \<Rightarrow> 'ctx option \<Rightarrow> config \<Rightarrow> 'pk list \<Rightarrow> nat list \<Rightarrow>
     ('i, 'rng) blind_state \<Rightarrow> ('i, 'rng) blind_state outcome" where
  "blind_loop E ctx cfg pks [] s = Return s"
| "blind_loop E ctx cfg pks (nOut # rest) s =
    (case blind_output E ctx cfg pks nOut s of
       Abort s' \<Rightarrow> Abort s'
     | Return s' \<Rightarrow> blind_loop E ctx cfg pks rest s')"

definition init_state :: "'i CMutableTransaction \<Rightarrow> 'rng \<Rightarrow> ('i, 'rng) blind_state" where
  "init_state t g =
    \<lparr>tx = t, blindptrs = [], nBlindsIn = 0, nBlindsOut = 0, nToBlind = 0, nBlinded = 0,
     rng = g, history = []\<rparr>"

definition BlindOutputs ::
  "('ctx, 'key, 'pk, 'rng) externals \<Rightarrow> 'ctx option \<Rightarrow> config \<Rightarrow> 'rng \<Rightarrow>
     bytes list \<Rightarrow> bytes list \<Rightarrow> 'pk list \<Rightarrow> 'i CMutableTransaction \<Rightarrow>
     ('i, 'rng) blind_state outcome" where
  "BlindOutputs E ctx cfg g input_blinding_factors output_blinding_factors output_pubkeys t =
    (if \<not> size_asserts t input_blinding_factors output_blinding_factors output_pubkeys
     then Abort (init_state t g)
     else
       case collect_inputs input_blinding_factors [0..<length (vin t)] (init_state t g) of
         Abort s \<Rightarrow> Abort s
       | Return s1 \<Rightarrow>
          (case count_outputs E output_blinding_factors output_pubkeys [0..<length (vout t)] s1 of
             Abort s \<Rightarrow> Abort s
           | Return s2 \<Rightarrow>
              if nBlindsIn s2 \<noteq> 0 \<and> nBlindsOut s2 + nToBlind s2 = 0 then Abort s2
              else blind_loop E ctx cfg output_pubkeys [0..<length (vout t)] s2))"

subsection \<open>The contract of BlindOutputs\<close>

text \<open>The blinding factors that are present: the entries of non-zero size.\<close>

definition known :: "bytes list \<Rightarrow> bytes list" where
  "known fs = filter (\<lambda>b. length b \<noteq> 0) fs"

text \<open>The outputs that need a newly generated factor, in ascending index: explicit,
  with a valid recipient key.\<close>

definition to_blind ::
  "('ctx, 'key, 'pk, 'rng) externals \<Rightarrow> 'pk list \<Rightarrow> CTxOut list \<Rightarrow> nat list" where
  "to_blind E pks outs =
     filter (\<lambda>i. IsAmount E (nValue (outs ! i)) \<and> IsValid E (pks ! i)) [0..<length outs]"

text \<open>The preconditions in the words of the specification: the three sequences'
  lengths match the transaction's input and output counts; every non-empty blinding
  factor is exactly 32 bytes; each output is blinded exactly when a factor was supplied
  for it; and if any input factor is non-empty, some output is already blinded or is to
  be blinded by the call.\<close>

definition precondition ::
  "('ctx, 'key, 'pk, 'rng) externals \<Rightarrow> bytes list \<Rightarrow> bytes list \<Rightarrow> 'pk list \<Rightarrow>
     'i CMutableTransaction \<Rightarrow> bool" where
  "precondition E ibf obf pks t =
    (length ibf = length (vin t) \<and> length obf = length (vout t) \<and> length pks = length (vout t) \<and>
     (\<forall>b \<in> set ibf. length b \<noteq> 0 \<longrightarrow> length b = 32) \<and>
     (\<forall>b \<in> set obf. length b \<noteq> 0 \<longrightarrow> length b = 32) \<and>
     (\<forall>i \<in> {0..<length (vout t)}.
        (\<not> IsAmount E (nValue (vout t ! i))) = (length (obf ! i) \<noteq> 0)) \<and>
     (known ibf \<noteq> [] \<longrightarrow>
        (\<exists>i \<in> {0..<length (vout t)}. length (obf ! i) \<noteq> 0 \<or> IsValid E (pks ! i))))"

text \<open>What the second loop asserts of the output \<open>i\<close>, and the state in which the
  third loop starts when no assertion of lines 63 to 96 fails.\<close>

definition outputs_ok ::
  "('ctx, 'key, 'pk, 'rng) externals \<Rightarrow> bytes list \<Rightarrow> CTxOut list \<Rightarrow> nat \<Rightarrow> bool" where
  "outputs_ok E obf outs i =
     (((length (obf ! i) \<noteq> 0) = (\<not> IsAmount E (nValue (outs ! i)))) \<and>
      (length (obf ! i) \<noteq> 0 \<longrightarrow> length (obf ! i) = 32))"

definition checked_state ::
  "('ctx, 'key, 'pk, 'rng) externals \<Rightarrow> bytes list \<Rightarrow> bytes list \<Rightarrow> 'pk list \<Rightarrow>
     'i CMutableTransaction \<Rightarrow> 'rng \<Rightarrow> ('i, 'rng) blind_state" where
  "checked_state E ibf obf pks t g =
    \<lparr>tx = t, blindptrs = known ibf @ known obf, nBlindsIn = length (known ibf),
     nBlindsOut = length (known obf),
     nToBlind = length (filter (\<lambda>i. length (obf ! i) = 0 \<and> IsValid E (pks ! i))
                  [0..<length (vout t)]),
     nBlinded = 0, rng = g, history = []\<rparr>"

text \<open>An entry of the history records the rewriting of its output: the output was
  explicit with a valid recipient key, and its value now is the one that lines 114 to
  132 computed from the value it had, for the factor of the entry.\<close>

definition recorded ::
  "('ctx, 'key, 'pk, 'rng) externals \<Rightarrow> 'ctx option \<Rightarrow> config \<Rightarrow> 'pk list \<Rightarrow>
     CTxOut list \<Rightarrow> CTxOut list \<Rightarrow> blind_event \<Rightarrow> bool" where
  "recorded E ctx cfg pks outs0 outs ev =
    (ev_nOut ev < length outs0 \<and>
     IsAmount E (nValue (outs0 ! ev_nOut ev)) \<and> IsValid E (pks ! ev_nOut ev) \<and>
     scriptPubKey (outs ! ev_nOut ev) = scriptPubKey (outs0 ! ev_nOut ev) \<and>
     (\<exists>g g'. create_blinded_value E ctx cfg (pks ! ev_nOut ev) (ev_factor ev) g
                (nValue (outs0 ! ev_nOut ev)) =
              Some (nValue (outs ! ev_nOut ev), g', ev_args ev, ev_result ev)))"

definition written_inv ::
  "('ctx, 'key, 'pk, 'rng) externals \<Rightarrow> 'ctx option \<Rightarrow> config \<Rightarrow> 'pk list \<Rightarrow>
     CTxOut list \<Rightarrow> nat list \<Rightarrow> ('i, 'rng) blind_state \<Rightarrow> bool" where
  "written_inv E ctx cfg pks outs0 rest s =
    (distinct rest \<and> length (vout (tx s)) = length outs0 \<and>
     (\<forall>i \<in> set rest. i < length outs0) \<and>
     (\<forall>ev \<in> set (history s).
        ev_nOut ev \<notin> set rest \<and> recorded E ctx cfg pks outs0 (vout (tx s)) ev) \<and>
     (\<forall>i < length outs0. i \<notin> ev_nOut ` set (history s) \<longrightarrow> vout (tx s) ! i = outs0 ! i))"

text \<open>How the factor of the \<open>k\<close>-th rewritten output was produced, for \<open>N\<close> outputs
  to blind, the factors \<open>base\<close> known before the third loop, \<open>NI\<close> of them input
  factors and \<open>NO\<close> output factors.\<close>

definition factor_rule ::
  "('ctx, 'key, 'pk, 'rng) externals \<Rightarrow> 'ctx option \<Rightarrow> bytes list \<Rightarrow> nat \<Rightarrow> nat \<Rightarrow> nat \<Rightarrow>
     blind_event list \<Rightarrow> nat \<Rightarrow> bool" where
  "factor_rule E ctx base NI NO N evs k =
    (if Suc k = N then
       ev_source (evs ! k) = Derived \<and>
       pedersen_blind_sum E ctx (base @ map ev_factor (take k evs)) (NO + k + NI) NI =
         Some (ev_factor (evs ! k))
     else
       ev_source (evs ! k) = Sampled \<and>
       (\<exists>g. ev_factor (evs ! k) = fst (GetRandBytes E g 32)))"

definition factors_inv ::
  "('ctx, 'key, 'pk, 'rng) externals \<Rightarrow> 'ctx option \<Rightarrow> 'pk list \<Rightarrow> CTxOut list \<Rightarrow>
     bytes list \<Rightarrow> nat \<Rightarrow> nat \<Rightarrow> nat list \<Rightarrow> ('i, 'rng) blind_state \<Rightarrow> bool" where
  "factors_inv E ctx pks outs0 base NI NO rest s =
    (distinct rest \<and> (\<forall>i \<in> set rest. vout (tx s) ! i = outs0 ! i) \<and>
     map ev_nOut (history s) @
       filter (\<lambda>i. IsAmount E (nValue (outs0 ! i)) \<and> IsValid E (pks ! i)) rest =
       to_blind E pks outs0 \<and>
     nBlinded s = length (history s) \<and> nToBlind s = length (to_blind E pks outs0) \<and>
     nBlindsIn s = NI \<and> nBlindsOut s = NO + length (history s) \<and>
     blindptrs s = base @ map ev_factor (history s) \<and>
     (\<forall>k < length (history s).
        factor_rule E ctx base NI NO (length (to_blind E pks outs0)) (history s) k))"

text \<open>The contracts of the external operations on which recovering a blinded amount
  rests: a commitment has 33 bytes and a value that holds one is not explicit; a range
  proof signed for a commitment to a 32-byte factor and an amount reports its own length
  and rewinds, under the same nonce and commitment, to that factor and amount; a
  compressed public key of a new key is valid and is read back from its 33 bytes; the key
  agreement is symmetric; sampled and derived factors have 32 bytes.\<close>

definition roundtrip_contract ::
  "('ctx, 'key, 'pk, 'rng) externals \<Rightarrow> 'ctx option \<Rightarrow> bool" where
  "roundtrip_contract E ctx =
    ((\<forall>b a c. pedersen_commit E ctx b a = Some c \<longrightarrow> length c = 33) \<and>
     (\<forall>b a v. pedersen_commit E ctx b a = Some (vchCommitment v) \<longrightarrow> \<not> IsAmount E v) \<and>
     (\<forall>a. sg_res (rangeproof_sign E ctx a) \<noteq> 0 \<longrightarrow> length (sa_blind a) = 32 \<longrightarrow>
          pedersen_commit E ctx (sa_blind a) (sa_value a) = Some (sa_commit a) \<longrightarrow>
          sg_plen (rangeproof_sign E ctx a) = length (sg_proof (rangeproof_sign E ctx a)) \<and>
          rw_res (rangeproof_rewind E ctx (sa_nonce a) (sa_commit a)
                    (sg_proof (rangeproof_sign E ctx a))) \<noteq> 0 \<and>
          rw_blind (rangeproof_rewind E ctx (sa_nonce a) (sa_commit a)
                    (sg_proof (rangeproof_sign E ctx a))) = sa_blind a \<and>
          rw_value (rangeproof_rewind E ctx (sa_nonce a) (sa_commit a)
                    (sg_proof (rangeproof_sign E ctx a))) = sa_value a) \<and>
     (\<forall>g. IsValid E (GetPubKey E (fst (MakeNewKey E g True))) \<and>
          length (pk_first33 E (GetPubKey E (fst (MakeNewKey E g True)))) = 33 \<and>
          CPubKey E (pk_first33 E (GetPubKey E (fst (MakeNewKey E g True)))) =
            GetPubKey E (fst (MakeNewKey E g True))) \<and>
     (\<forall>k k'. ECDH E k (GetPubKey E k') = ECDH E k' (GetPubKey E k)) \<and>
     (\<forall>g. length (fst (GetRandBytes E g 32)) = 32) \<and>
     (\<forall>bs n np b. pedersen_blind_sum E ctx bs n np = Some b \<longrightarrow> length b = 32))"

subsection \<open>A concrete instance of the external operations\<close>

text \<open>A small executable instance, used to run the model on concrete inputs. A private
  key is one byte \<open>k\<close>, its public key the 33 bytes \<open>2, k, 0, ...\<close>, the shared
  point of \<open>k\<close> and the public key of \<open>k'\<close> is the public key of \<open>k * k'\<close>.
  A range proof is the nonce, the factor and as many zero bytes as the amount; rewinding
  checks the nonce and reads the factor and the amount back. The scalar of a factor is its
  first byte, and the blind sum is computed on these scalars. A value is explicit when
  the first byte of its commitment field is zero, and its amount is then the last byte.\<close>

definition demo_pubkey :: "byte \<Rightarrow> bytes" where
  "demo_pubkey k = 2 # k # replicate 31 0"

definition demo_valid :: "bytes \<Rightarrow> bool" where
  "demo_valid p = (case p of [] \<Rightarrow> False | h # _ \<Rightarrow> h = 2 \<and> length p = 33)"

definition demo_ecdh :: "byte \<Rightarrow> bytes \<Rightarrow> bytes" where
  "demo_ecdh k p = (case p of h # x # _ \<Rightarrow> demo_pubkey (k * x) | _ \<Rightarrow> [])"

definition demo_scalar :: "bytes \<Rightarrow> byte" where
  "demo_scalar b = (case b of [] \<Rightarrow> 0 | h # _ \<Rightarrow> h)"

definition demo_blind_sum :: "bytes list \<Rightarrow> nat \<Rightarrow> nat \<Rightarrow> bytes" where
  "demo_blind_sum bs n np =
     (sum_list (map demo_scalar (take np (take n bs))) -
      sum_list (map demo_scalar (drop np (take n bs)))) # replicate 31 0"

definition demo_sign :: "sign_args \<Rightarrow> sign_result" where
  "demo_sign a =
    (let p = sa_nonce a @ sa_blind a @ replicate (unat (sa_value a)) 0 in
     if length p \<le> sa_plen a then \<lparr>sg_res = 1, sg_plen = length p, sg_proof = p\<rparr>
     else \<lparr>sg_res = 0, sg_plen = sa_plen a, sg_proof = []\<rparr>)"

definition demo_rewind :: "bytes \<Rightarrow> bytes \<Rightarrow> bytes \<Rightarrow> rewind_result" where
  "demo_rewind nonce c p =
    (if take (length nonce) p = nonce \<and> length nonce + 32 \<le> length p then
       \<lparr>rw_res = 1, rw_blind = take 32 (drop (length nonce) p),
        rw_value = of_nat (length p - length nonce - 32)\<rparr>
     else \<lparr>rw_res = 0, rw_blind = [], rw_value = 0\<rparr>)"

definition demo_IsAmount :: "CTxOutValue \<Rightarrow> bool" where
  "demo_IsAmount v = (case vchCommitment v of [] \<Rightarrow> False | h # _ \<Rightarrow> h = 0)"

definition demo_GetAmount :: "CTxOutValue \<Rightarrow> CAmount" where
  "demo_GetAmount v = (case rev (vchCommitment v) of [] \<Rightarrow> 0 | h # _ \<Rightarrow> ucast h)"

definition demo :: "(unit, byte, bytes, nat) externals" where
  "demo =
    \<lparr>pedersen_commit = (\<lambda>ctx b a. Some (3 # resize 32 b)),
     pedersen_blind_sum = (\<lambda>ctx bs n np. Some (demo_blind_sum bs n np)),
     rangeproof_sign = (\<lambda>ctx a. demo_sign a),
     rangeproof_rewind = (\<lambda>ctx nonce c p. demo_rewind nonce c p),
     CPubKey = (\<lambda>v. v),
     IsValid = demo_valid,
     pk_bytes = (\<lambda>p. p),
     pk_first33 = resize 33,
     MakeNewKey = (\<lambda>g c. (of_nat g + 1, g + 1)),
     GetPubKey = demo_pubkey,
     ECDH = demo_ecdh,
     CHash256 = resize 32,
     GetRandBytes = (\<lambda>g n. (replicate n (of_nat g), g + 1)),
     MAX_MONEY = 2100000000000000,
     MoneyRange = (\<lambda>a. 0 \<le>s a \<and> a \<le>s 2100000000000000),
     IsAmount = demo_IsAmount,
     GetAmount = demo_GetAmount\<rparr>"

text \<open>The same instance with a rewind that reports success and an amount of
  \<^verbatim>\<open>MAX_MONEY + 1\<close>, as a proof over a larger amount makes the library do.\<close>

definition tampered :: "(unit, byte, bytes, nat) externals" where
  "tampered = demo\<lparr>rangeproof_rewind :=
     (\<lambda>ctx nonce c p. \<lparr>rw_res = 1, rw_blind = replicate 32 7, rw_value = 2100000000000001\<rparr>)\<rparr>"

definition explicit_value :: "byte \<Rightarrow> CTxOutValue" where
  "explicit_value a =
    \<lparr>vchCommitment = replicate 32 0 @ [a], vchRangeproof = [], vchNonceCommitment = []\<rparr>"

definition blinded_value :: "bytes \<Rightarrow> CTxOutValue" where
  "blinded_value nc =
    \<lparr>vchCommitment = 3 # replicate 32 0, vchRangeproof = replicate 64 0,
     vchNonceCommitment = nc\<rparr>"

definition txout_of :: "CTxOutValue \<Rightarrow> CTxOut" where
  "txout_of v = \<lparr>nValue = v, scriptPubKey = []\<rparr>"

text \<open>A transaction with one input and three explicit outputs of amounts 5, 6 and 7.\<close>

definition demo_tx :: "unit CMutableTransaction" where
  "demo_tx =
    \<lparr>vin = [()],
     vout = [txout_of (explicit_value 5), txout_of (explicit_value 6),
             txout_of (explicit_value 7)]\<rparr>"

text \<open>The state in which BlindOutputs returns on this transaction, for the input factor
  of 32 bytes 9, no output factor, and the recipient keys 4 and 5 for the outputs 0 and 2:
  the two outputs are rewritten, the first with a sampled factor and the second with the
  derived one.\<close>

definition demo_nonce :: "byte \<Rightarrow> bytes" where
  "demo_nonce shared = 2 # shared # replicate 30 0"

definition demo_event ::
  "config \<Rightarrow> nat \<Rightarrow> factor_source \<Rightarrow> bytes \<Rightarrow> byte \<Rightarrow> byte \<Rightarrow> blind_event" where
  "demo_event cfg nOut src b amount shared =
    \<lparr>ev_nOut = nOut, ev_source = src, ev_factor = b,
     ev_args = \<lparr>sa_plen = 5134, sa_min_value = 0, sa_commit = 3 # b, sa_blind = b,
                sa_nonce = demo_nonce shared, sa_exp = ct_exponent cfg,
                sa_min_bits = ct_bits cfg, sa_value = ucast amount\<rparr>,
     ev_result = \<lparr>sg_res = 1, sg_plen = 64 + unat amount,
                  sg_proof = demo_nonce shared @ b @ replicate (unat amount) 0\<rparr>\<rparr>"

definition demo_blinded :: "bytes \<Rightarrow> byte \<Rightarrow> byte \<Rightarrow> byte \<Rightarrow> CTxOutValue" where
  "demo_blinded b amount eph shared =
    \<lparr>vchCommitment = 3 # b,
     vchRangeproof = demo_nonce shared @ b @ replicate (unat amount) 0,
     vchNonceCommitment = demo_pubkey eph\<rparr>"

definition demo_final :: "config \<Rightarrow> (unit, nat) blind_state" where
  "demo_final cfg =
    \<lparr>tx = \<lparr>vin = [()],
            vout = [txout_of (demo_blinded (replicate 32 0) 5 2 8), txout_of (explicit_value 6),
                    txout_of (demo_blinded (9 # replicate 31 0) 7 3 15)]\<rparr>,
     blindptrs = [replicate 32 9, replicate 32 0, 9 # replicate 31 0],
     nBlindsIn = 1, nBlindsOut = 2, nToBlind = 2, nBlinded = 2, rng = 3,
     history = [demo_event cfg 0 Sampled (replicate 32 0) 5 8,
                demo_event cfg 2 Derived (9 # replicate 31 0) 7 15]\<rparr>"

definition demo_cfg :: config where
  "demo_cfg = [''-ct_exponent'' \<mapsto> 25, ''-ct_bits'' \<mapsto> 100]"


section \<open>Properties of UnblindOutput\<close>

lemma UnblindOutput_explicit:
  "IsAmount E (nValue txout) \<Longrightarrow>
   UnblindOutput E ctx key txout a b =
     \<lparr>ret = - 1, amount_out = GetAmount E (nValue txout), blinding_factor_out = []\<rparr>"
  by (simp add: UnblindOutput_def resize_def)

lemma UnblindOutput_invalid_key:
  "\<not> IsAmount E (nValue txout) \<Longrightarrow>
   \<not> IsValid E (CPubKey E (vchNonceCommitment (nValue txout))) \<Longrightarrow>
   UnblindOutput E ctx key txout a b = \<lparr>ret = 0, amount_out = a, blinding_factor_out = b\<rparr>"
  by (simp add: UnblindOutput_def)

text \<open>The result on a blinded output with a valid ephemeral key, in terms of what the
  rewind returns.\<close>

lemma UnblindOutput_rewind:
  assumes "\<not> IsAmount E (nValue txout)"
    and "IsValid E (CPubKey E (vchNonceCommitment (nValue txout)))"
    and "r = rangeproof_rewind E ctx
           (CHash256 E (pk_bytes E (ECDH E key (CPubKey E (vchNonceCommitment (nValue txout))))))
           (vchCommitment (nValue txout)) (vchRangeproof (nValue txout))"
  shows "UnblindOutput E ctx key txout a b =
    (if rw_res r = 0 \<or> MAX_MONEY E < rw_value r \<or> \<not> MoneyRange E (rw_value r)
     then \<lparr>ret = (if rw_res r \<noteq> 0 then 1 else 0), amount_out = 0, blinding_factor_out = []\<rparr>
     else \<lparr>ret = 1, amount_out = rw_value r,
           blinding_factor_out = write_at0 (rw_blind r) (resize 32 b)\<rparr>)"
  using assms by (simp add: UnblindOutput_def Let_def resize_def)

text \<open>C6: on an output whose value is explicit with amount A, UnblindOutput returns the
  "not blinded" discriminant -1 (neither 0, failure, nor 1, success), the amount
  parameter holds A and the blinding factor parameter is empty, for any key and whatever
  the two parameters held before.\<close>

theorem C6_explicit_passthrough:
  assumes "IsAmount E (nValue txout)"
  shows "ret (UnblindOutput E ctx key txout a b) = - 1 \<and>
         ret (UnblindOutput E ctx key txout a b) \<noteq> 0 \<and>
         ret (UnblindOutput E ctx key txout a b) \<noteq> 1 \<and>
         amount_out (UnblindOutput E ctx key txout a b) = GetAmount E (nValue txout) \<and>
         blinding_factor_out (UnblindOutput E ctx key txout a b) = []"
  by (simp add: UnblindOutput_explicit [OF assms])

theorem C6_explicit_passthrough_witness:
  "IsAmount demo (nValue (txout_of (explicit_value 5))) \<and>
   GetAmount demo (nValue (txout_of (explicit_value 5))) = 5 \<and>
   ret (UnblindOutput demo None 1 (txout_of (explicit_value 5)) 9 [1, 2]) = - 1 \<and>
   amount_out (UnblindOutput demo None 1 (txout_of (explicit_value 5)) 9 [1, 2]) = 5 \<and>
   blinding_factor_out (UnblindOutput demo None 1 (txout_of (explicit_value 5)) 9 [1, 2]) = []"
proof -
  have h: "IsAmount demo (nValue (txout_of (explicit_value 5)))"
    by code_simp
  have a: "GetAmount demo (nValue (txout_of (explicit_value 5))) = 5"
    by code_simp
  show ?thesis
    using h a C6_explicit_passthrough [OF h, of None 1 9 "[1, 2]"] by simp
qed

text \<open>C10: on a blinded output whose nonce commitment is not a valid public key,
  UnblindOutput returns 0 and both parameters hold what the caller passed in; so the
  returned blinding factor has length 0 or 32 exactly when the one passed in has.\<close>

theorem C10_invalid_key_leaves_parameters:
  assumes "\<not> IsAmount E (nValue txout)"
    and "\<not> IsValid E (CPubKey E (vchNonceCommitment (nValue txout)))"
  shows "UnblindOutput E ctx key txout a b =
           \<lparr>ret = 0, amount_out = a, blinding_factor_out = b\<rparr> \<and>
         (length (blinding_factor_out (UnblindOutput E ctx key txout a b)) \<in> {0, 32}) =
           (length b \<in> {0, 32})"
  by (simp add: UnblindOutput_invalid_key [OF assms])

theorem C10_invalid_key_leaves_parameters_witness:
  "\<not> IsAmount demo (nValue (txout_of (blinded_value []))) \<and>
   \<not> IsValid demo (CPubKey demo (vchNonceCommitment (nValue (txout_of (blinded_value []))))) \<and>
   UnblindOutput demo None 1 (txout_of (blinded_value [])) 9 [1, 2] =
     \<lparr>ret = 0, amount_out = 9, blinding_factor_out = [1, 2]\<rparr> \<and>
   length (blinding_factor_out (UnblindOutput demo None 1 (txout_of (blinded_value [])) 9 [1, 2]))
     \<notin> {0, 32}"
proof -
  have h1: "\<not> IsAmount demo (nValue (txout_of (blinded_value [])))"
    by code_simp
  have h2: "\<not> IsValid demo (CPubKey demo (vchNonceCommitment (nValue (txout_of (blinded_value [])))))"
    by code_simp
  show ?thesis
    using h1 h2 C10_invalid_key_leaves_parameters [OF h1 h2, of None 1 9 "[1, 2]"] by simp
qed

text \<open>C2: the claim asks, on a blinded output whose nonce commitment is not a valid
  public key, for the failure discriminant with the amount parameter 0 and the blinding
  factor parameter empty. The source returns 0 at line 43 before either parameter is
  written, while the other failure path (lines 53 to 55) zeroes the amount and clears
  the factor. Evaluated on a blinded output with an empty nonce commitment, with the
  amount parameter holding 9 and the blinding factor parameter holding two bytes: the
  call returns 0, and the parameters still hold 9 and the two bytes.\<close>

theorem C2_invalid_key_stale_outputs:
  "\<not> IsAmount demo (nValue (txout_of (blinded_value []))) \<and>
   \<not> IsValid demo (CPubKey demo (vchNonceCommitment (nValue (txout_of (blinded_value []))))) \<and>
   UnblindOutput demo None 1 (txout_of (blinded_value [])) 9 [1, 2] =
     \<lparr>ret = 0, amount_out = 9, blinding_factor_out = [1, 2]\<rparr> \<and>
   amount_out (UnblindOutput demo None 1 (txout_of (blinded_value [])) 9 [1, 2]) \<noteq> 0 \<and>
   blinding_factor_out (UnblindOutput demo None 1 (txout_of (blinded_value [])) 9 [1, 2]) \<noteq> []"
  by code_simp

theorem C2_invalid_key_stale_outputs_witness:
  "ret (UnblindOutput demo None 1 (txout_of (blinded_value [])) 9 [1, 2]) = 0 \<and>
   amount_out (UnblindOutput demo None 1 (txout_of (blinded_value [])) 9 [1, 2]) = 9 \<and>
   blinding_factor_out (UnblindOutput demo None 1 (txout_of (blinded_value [])) 9 [1, 2]) =
     [1, 2]"
  using C2_invalid_key_stale_outputs by simp

text \<open>C1: the claim asks for the failure discriminant when the rewind reports success
  and the recovered amount is out of range. The source zeroes the amount and clears the
  blinding factor, and then returns \<^verbatim>\<open>res ? 1 : 0\<close>, which is 1. Evaluated on a
  blinded output with a valid ephemeral key whose rewind succeeds with the amount
  \<^verbatim>\<open>MAX_MONEY + 1\<close>: the call returns 1, amount 0, empty blinding factor.\<close>

theorem C1_out_of_range_returns_success:
  "\<not> IsAmount tampered (nValue (txout_of (blinded_value (demo_pubkey 3)))) \<and>
   IsValid tampered
     (CPubKey tampered (vchNonceCommitment (nValue (txout_of (blinded_value (demo_pubkey 3)))))) \<and>
   rw_res (rangeproof_rewind tampered None
     (CHash256 tampered (pk_bytes tampered (ECDH tampered 1 (demo_pubkey 3))))
     (3 # replicate 32 0) (replicate 64 0)) = 1 \<and>
   MAX_MONEY tampered < rw_value (rangeproof_rewind tampered None
     (CHash256 tampered (pk_bytes tampered (ECDH tampered 1 (demo_pubkey 3))))
     (3 # replicate 32 0) (replicate 64 0)) \<and>
   UnblindOutput tampered None 1 (txout_of (blinded_value (demo_pubkey 3))) 9 [1, 2] =
     \<lparr>ret = 1, amount_out = 0, blinding_factor_out = []\<rparr>"
proof -
  have "\<not> IsAmount tampered (nValue (txout_of (blinded_value (demo_pubkey 3))))"
    by code_simp
  moreover have "IsValid tampered
     (CPubKey tampered (vchNonceCommitment (nValue (txout_of (blinded_value (demo_pubkey 3))))))"
    by code_simp
  moreover have "rw_res (rangeproof_rewind tampered None n c p) = 1" for n c p
    by (simp add: tampered_def)
  moreover have "MAX_MONEY tampered < rw_value (rangeproof_rewind tampered None n c p)" for n c p
    by (simp add: tampered_def demo_def)
  moreover have "UnblindOutput tampered None 1 (txout_of (blinded_value (demo_pubkey 3))) 9 [1, 2] =
     \<lparr>ret = 1, amount_out = 0, blinding_factor_out = []\<rparr>"
    by code_simp
  ultimately show ?thesis by simp
qed

theorem C1_out_of_range_returns_success_witness:
  "ret (UnblindOutput tampered None 1 (txout_of (blinded_value (demo_pubkey 3))) 9 [1, 2]) = 1"
  using C1_out_of_range_returns_success by simp

section \<open>Properties of BlindOutputs\<close>

subsection \<open>The assertions of lines 63 to 96\<close>

lemma collect_inputs_frame:
  "tx (state_of (collect_inputs ibf idxs s)) = tx s \<and>
   rng (state_of (collect_inputs ibf idxs s)) = rng s \<and>
   history (state_of (collect_inputs ibf idxs s)) = history s"
  by (induction idxs arbitrary: s) auto

lemma collect_inputs_Return:
  "(\<forall>i \<in> set idxs. length (ibf ! i) \<noteq> 0 \<longrightarrow> length (ibf ! i) = 32) \<Longrightarrow>
   collect_inputs ibf idxs s =
     Return (s\<lparr>blindptrs := blindptrs s @ known (map ((!) ibf) idxs),
               nBlindsIn := nBlindsIn s + length (known (map ((!) ibf) idxs))\<rparr>)"
  by (induction idxs arbitrary: s) (auto simp: known_def)

lemma collect_inputs_Abort:
  "\<not> (\<forall>i \<in> set idxs. length (ibf ! i) \<noteq> 0 \<longrightarrow> length (ibf ! i) = 32) \<Longrightarrow>
   \<not> returned (collect_inputs ibf idxs s)"
  by (induction idxs arbitrary: s) (auto simp: known_def)

lemma count_outputs_frame:
  "tx (state_of (count_outputs E obf pks idxs s)) = tx s \<and>
   rng (state_of (count_outputs E obf pks idxs s)) = rng s \<and>
   history (state_of (count_outputs E obf pks idxs s)) = history s"
  by (induction idxs arbitrary: s) auto

lemma count_outputs_Return:
  "(\<forall>i \<in> set idxs. outputs_ok E obf (vout (tx s)) i) \<Longrightarrow>
   count_outputs E obf pks idxs s =
     Return (s\<lparr>blindptrs := blindptrs s @ known (map ((!) obf) idxs),
               nBlindsOut := nBlindsOut s + length (known (map ((!) obf) idxs)),
               nToBlind := nToBlind s +
                 length (filter (\<lambda>i. length (obf ! i) = 0 \<and> IsValid E (pks ! i)) idxs)\<rparr>)"
  by (induction idxs arbitrary: s) (auto simp: known_def outputs_ok_def)

lemma count_outputs_Abort:
  "\<not> (\<forall>i \<in> set idxs. outputs_ok E obf outs i) \<Longrightarrow> vout (tx s) = outs \<Longrightarrow>
   \<not> returned (count_outputs E obf pks idxs s)"
proof (induction idxs arbitrary: s)
  case Nil
  then show ?case by simp
next
  case (Cons nOut rest)
  show ?case
  proof (cases "outputs_ok E obf outs nOut")
    case False
    with Cons.prems(2) show ?thesis
      by (auto simp: outputs_ok_def)
  next
    case True
    with Cons.prems(1) have rest: "\<not> (\<forall>i \<in> set rest. outputs_ok E obf outs i)"
      by simp
    show ?thesis
      using True Cons.prems(2) Cons.IH [OF rest]
      by (auto simp: outputs_ok_def)
  qed
qed

lemma BlindOutputs_accepted:
  assumes "precondition E ibf obf pks t"
  shows "BlindOutputs E ctx cfg g ibf obf pks t =
           blind_loop E ctx cfg pks [0..<length (vout t)] (checked_state E ibf obf pks t g)"
proof -
  from assms have len: "length ibf = length (vin t)" "length obf = length (vout t)"
      "length pks = length (vout t)"
    and i32: "\<forall>i \<in> set [0..<length (vin t)]. length (ibf ! i) \<noteq> 0 \<longrightarrow> length (ibf ! i) = 32"
    and ook: "\<forall>i \<in> set [0..<length (vout t)]. outputs_ok E obf (vout t) i"
    and some: "known ibf \<noteq> [] \<longrightarrow>
        (\<exists>i \<in> {0..<length (vout t)}. length (obf ! i) \<noteq> 0 \<or> IsValid E (pks ! i))"
    by (auto simp: precondition_def outputs_ok_def)
  have m1: "map ((!) ibf) [0..<length (vin t)] = ibf"
    using len(1) map_nth [of ibf] by simp
  have m2: "map ((!) obf) [0..<length (vout t)] = obf"
    using len(2) map_nth [of obf] by simp
  have c1: "collect_inputs ibf [0..<length (vin t)] (init_state t g) =
     Return ((init_state t g)\<lparr>blindptrs := known ibf, nBlindsIn := length (known ibf)\<rparr>)"
    using collect_inputs_Return [OF i32, of "init_state t g"] by (simp add: m1 init_state_def)
  have c2: "count_outputs E obf pks [0..<length (vout t)]
        ((init_state t g)\<lparr>blindptrs := known ibf, nBlindsIn := length (known ibf)\<rparr>) =
     Return (checked_state E ibf obf pks t g)"
    using count_outputs_Return [of "[0..<length (vout t)]" E obf
        "(init_state t g)\<lparr>blindptrs := known ibf, nBlindsIn := length (known ibf)\<rparr>" pks] ook
    by (simp add: m2 init_state_def checked_state_def)
  have c3: "\<not> (nBlindsIn (checked_state E ibf obf pks t g) \<noteq> 0 \<and>
     nBlindsOut (checked_state E ibf obf pks t g) + nToBlind (checked_state E ibf obf pks t g) = 0)"
  proof (cases "known ibf = []")
    case True
    then show ?thesis by (simp add: checked_state_def)
  next
    case False
    with some obtain i where i: "i < length (vout t)"
        and d: "length (obf ! i) \<noteq> 0 \<or> IsValid E (pks ! i)"
      by auto
    show ?thesis
    proof (cases "length (obf ! i) \<noteq> 0")
      case True
      with i len(2) have "obf ! i \<in> set (known obf)"
        by (simp add: known_def)
      then have "known obf \<noteq> []" by auto
      then show ?thesis by (simp add: checked_state_def)
    next
      case False
      with d i have "i \<in> set (filter (\<lambda>i. length (obf ! i) = 0 \<and> IsValid E (pks ! i))
                  [0..<length (vout t)])"
        by simp
      then have "filter (\<lambda>i. length (obf ! i) = 0 \<and> IsValid E (pks ! i))
                  [0..<length (vout t)] \<noteq> []"
        by (metis empty_iff list.set(1))
      then show ?thesis by (simp add: checked_state_def)
    qed
  qed
  show ?thesis
    using len c1 c2 c3 by (auto simp: BlindOutputs_def size_asserts_def)
qed

lemma BlindOutputs_rejected:
  assumes "\<not> precondition E ibf obf pks t"
  shows "\<not> returned (BlindOutputs E ctx cfg g ibf obf pks t) \<and>
         tx (state_of (BlindOutputs E ctx cfg g ibf obf pks t)) = t \<and>
         rng (state_of (BlindOutputs E ctx cfg g ibf obf pks t)) = g \<and>
         history (state_of (BlindOutputs E ctx cfg g ibf obf pks t)) = []"
proof (cases "size_asserts t ibf obf pks")
  case False
  then show ?thesis by (simp add: BlindOutputs_def init_state_def)
next
  case sizes: True
  then have len: "length ibf = length (vin t)" "length obf = length (vout t)"
      "length pks = length (vout t)"
    by (simp_all add: size_asserts_def)
  have m1: "map ((!) ibf) [0..<length (vin t)] = ibf"
    using len(1) map_nth [of ibf] by simp
  have m2: "map ((!) obf) [0..<length (vout t)] = obf"
    using len(2) map_nth [of obf] by simp
  let ?c1 = "collect_inputs ibf [0..<length (vin t)] (init_state t g)"
  have f1: "tx (state_of ?c1) = t \<and> rng (state_of ?c1) = g \<and> history (state_of ?c1) = []"
    using collect_inputs_frame [of ibf "[0..<length (vin t)]" "init_state t g"]
    by (simp add: init_state_def)
  show ?thesis
  proof (cases ?c1)
    case (Abort s)
    with f1 sizes show ?thesis by (simp add: BlindOutputs_def)
  next
    case (Return s1)
    let ?c2 = "count_outputs E obf pks [0..<length (vout t)] s1"
    have f2: "tx (state_of ?c2) = t \<and> rng (state_of ?c2) = g \<and> history (state_of ?c2) = []"
      using count_outputs_frame [of E obf pks "[0..<length (vout t)]" s1] f1 Return by simp
    show ?thesis
    proof (cases ?c2)
      case (Abort s)
      with f2 sizes Return show ?thesis by (simp add: BlindOutputs_def)
    next
      case r2: (Return s2)
      have i32: "\<forall>i \<in> set [0..<length (vin t)]. length (ibf ! i) \<noteq> 0 \<longrightarrow> length (ibf ! i) = 32"
        using collect_inputs_Abort [of "[0..<length (vin t)]" ibf "init_state t g"] Return
        by auto
      have ook: "\<forall>i \<in> set [0..<length (vout t)]. outputs_ok E obf (vout t) i"
        using count_outputs_Abort [of "[0..<length (vout t)]" E obf "vout t" s1 pks] r2 f1 Return
        by auto
      have s1: "s1 = (init_state t g)\<lparr>blindptrs := known ibf, nBlindsIn := length (known ibf)\<rparr>"
        using collect_inputs_Return [OF i32, of "init_state t g"] Return
        by (simp add: m1 init_state_def)
      have s2: "s2 = checked_state E ibf obf pks t g"
        using count_outputs_Return [of "[0..<length (vout t)]" E obf s1 pks] ook r2 s1
        by (simp add: m2 init_state_def checked_state_def)
      have b32: "\<forall>b \<in> set ibf. length b \<noteq> 0 \<longrightarrow> length b = 32"
        using i32 len(1) by (auto simp: in_set_conv_nth)
      have o32: "\<forall>b \<in> set obf. length b \<noteq> 0 \<longrightarrow> length b = 32"
        using ook len(2) by (auto simp: in_set_conv_nth outputs_ok_def)
      have st: "\<forall>i \<in> {0..<length (vout t)}.
          (\<not> IsAmount E (nValue (vout t ! i))) = (length (obf ! i) \<noteq> 0)"
        using ook by (auto simp: outputs_ok_def)
      from assms len b32 o32 st have last: "known ibf \<noteq> []"
        and none: "\<forall>i \<in> {0..<length (vout t)}. length (obf ! i) = 0 \<and> \<not> IsValid E (pks ! i)"
        by (auto simp: precondition_def)
      have "known obf = []"
        using none len(2) by (auto simp: known_def filter_empty_conv in_set_conv_nth)
      moreover have "filter (\<lambda>i. length (obf ! i) = 0 \<and> IsValid E (pks ! i))
                  [0..<length (vout t)] = []"
        using none by (auto simp: filter_empty_conv)
      ultimately have "nBlindsIn s2 \<noteq> 0 \<and> nBlindsOut s2 + nToBlind s2 = 0"
        using last s2 by (simp add: checked_state_def)
      then show ?thesis
        using sizes Return r2 f2 by (simp add: BlindOutputs_def)
    qed
  qed
qed

text \<open>C5: when a precondition of BlindOutputs is violated (the lengths of the three
  sequences against the transaction's input and output counts, a non-empty blinding
  factor that is not 32 bytes long, an output whose blinded or explicit state disagrees
  with the factor supplied for it, or non-empty input factors with no output blinded or
  to be blinded), the call aborts, and the transaction at the abort is the transaction
  that was passed in: no output has been rewritten.\<close>

theorem C5_violation_aborts_before_mutation:
  assumes "\<not> precondition E ibf obf pks t"
  shows "\<not> returned (BlindOutputs E ctx cfg g ibf obf pks t) \<and>
         tx (state_of (BlindOutputs E ctx cfg g ibf obf pks t)) = t \<and>
         history (state_of (BlindOutputs E ctx cfg g ibf obf pks t)) = []"
  using BlindOutputs_rejected [OF assms] by simp

theorem C5_violation_aborts_before_mutation_witness:
  "\<not> precondition demo [replicate 32 9] [[], []] [demo_pubkey 4, [], demo_pubkey 5] demo_tx \<and>
   \<not> returned (BlindOutputs demo None (\<lambda>n. None) 0 [replicate 32 9] [[], []]
        [demo_pubkey 4, [], demo_pubkey 5] demo_tx) \<and>
   tx (state_of (BlindOutputs demo None (\<lambda>n. None) 0 [replicate 32 9] [[], []]
        [demo_pubkey 4, [], demo_pubkey 5] demo_tx)) = demo_tx"
proof -
  have h: "\<not> precondition demo [replicate 32 9] [[], []] [demo_pubkey 4, [], demo_pubkey 5] demo_tx"
    by (simp add: precondition_def demo_tx_def)
  show ?thesis
    using h C5_violation_aborts_before_mutation [OF h, of None "\<lambda>n. None" 0] by simp
qed

subsection \<open>One iteration of the third loop\<close>

lemma blind_output_skip:
  "\<not> (IsAmount E (nValue (vout (tx s) ! nOut)) \<and> IsValid E (pks ! nOut)) \<Longrightarrow>
   blind_output E ctx cfg pks nOut s = Return s"
  by (auto simp: blind_output_def)

lemma blind_output_cases:
  assumes "IsAmount E (nValue (vout (tx s) ! nOut))" and "IsValid E (pks ! nOut)"
  obtains
    (no_factor) "new_blind E ctx s = None"
      and "blind_output E ctx cfg pks nOut s = Abort s"
  | (no_commit) src b g where "new_blind E ctx s = Some (src, b, g)"
      and "create_blinded_value E ctx cfg (pks ! nOut) b g (nValue (vout (tx s) ! nOut)) = None"
      and "blind_output E ctx cfg pks nOut s = Abort (push_blind b g s)"
  | (written) src b g v' g' args r where "new_blind E ctx s = Some (src, b, g)"
      and "create_blinded_value E ctx cfg (pks ! nOut) b g (nValue (vout (tx s) ! nOut)) =
             Some (v', g', args, r)"
      and "blind_output E ctx cfg pks nOut s =
             (if sg_res r = 0 then Abort else Return)
               (store_value nOut v' g'
                  \<lparr>ev_nOut = nOut, ev_source = src, ev_factor = b, ev_args = args,
                   ev_result = r\<rparr> (push_blind b g s))"
proof (cases "new_blind E ctx s")
  case None
  with assms have "blind_output E ctx cfg pks nOut s = Abort s"
    by (simp add: blind_output_def)
  with None show ?thesis by (rule no_factor)
next
  case (Some f)
  obtain src b g where f: "f = (src, b, g)"
    by (cases f) auto
  have l: "last (blindptrs (push_blind b g s)) = b"
    by (simp add: push_blind_def)
  show ?thesis
  proof (cases "create_blinded_value E ctx cfg (pks ! nOut) b g (nValue (vout (tx s) ! nOut))")
    case None
    with assms Some f l have "blind_output E ctx cfg pks nOut s = Abort (push_blind b g s)"
      by (simp add: blind_output_def)
    with Some f None show ?thesis by (auto intro: no_commit)
  next
    case c: (Some w)
    obtain v' g' args r where w: "w = (v', g', args, r)"
      by (cases w) auto
    from assms Some f l c w have "blind_output E ctx cfg pks nOut s =
             (if sg_res r = 0 then Abort else Return)
               (store_value nOut v' g'
                  \<lparr>ev_nOut = nOut, ev_source = src, ev_factor = b, ev_args = args,
                   ev_result = r\<rparr> (push_blind b g s))"
      by (simp add: blind_output_def)
    with Some f c w show ?thesis by (auto intro: written)
  qed
qed

lemma tx_push_blind [simp]: "tx (push_blind b g s) = tx s"
  by (simp add: push_blind_def)

lemma history_push_blind [simp]: "history (push_blind b g s) = history s"
  by (simp add: push_blind_def)

lemma tx_store_value [simp]: "tx (store_value nOut v g ev s) = set_value nOut v (tx s)"
  by (simp add: store_value_def)

lemma history_store_value [simp]: "history (store_value nOut v g ev s) = history s @ [ev]"
  by (simp add: store_value_def)

lemma vin_set_value [simp]: "vin (set_value nOut v t) = vin t"
  by (simp add: set_value_def)

lemma length_vout_set_value [simp]: "length (vout (set_value nOut v t)) = length (vout t)"
  by (simp add: set_value_def)

lemma vout_set_value_other [simp]: "i \<noteq> nOut \<Longrightarrow> vout (set_value nOut v t) ! i = vout t ! i"
  by (simp add: set_value_def)

lemma vout_set_value_same:
  "nOut < length (vout t) \<Longrightarrow>
   vout (set_value nOut v t) ! nOut = (vout t ! nOut)\<lparr>nValue := v\<rparr>"
  by (simp add: set_value_def)

lemma state_of_if [simp]: "state_of ((if c then Abort else Return) s) = s"
  by simp

lemma returned_if [simp]: "returned ((if c then Abort else Return) s) = (\<not> c)"
  by simp

text \<open>An iteration keeps the inputs and the number of outputs, and writes to no output
  but its own.\<close>

lemma blind_output_shape:
  "vin (tx (state_of (blind_output E ctx cfg pks nOut s))) = vin (tx s) \<and>
   length (vout (tx (state_of (blind_output E ctx cfg pks nOut s)))) = length (vout (tx s))"
proof (cases "IsAmount E (nValue (vout (tx s) ! nOut)) \<and> IsValid E (pks ! nOut)")
  case False
  then show ?thesis by (simp add: blind_output_skip)
next
  case True
  then have a: "IsAmount E (nValue (vout (tx s) ! nOut))" and b: "IsValid E (pks ! nOut)"
    by simp_all
  from a b show ?thesis
    by (cases rule: blind_output_cases [where ctx = ctx and cfg = cfg]) simp_all
qed

lemma blind_output_other:
  assumes "i \<noteq> nOut"
  shows "vout (tx (state_of (blind_output E ctx cfg pks nOut s))) ! i = vout (tx s) ! i"
proof (cases "IsAmount E (nValue (vout (tx s) ! nOut)) \<and> IsValid E (pks ! nOut)")
  case False
  then show ?thesis by (simp add: blind_output_skip)
next
  case True
  then have a: "IsAmount E (nValue (vout (tx s) ! nOut))" and b: "IsValid E (pks ! nOut)"
    by simp_all
  from a b show ?thesis
    by (cases rule: blind_output_cases [where ctx = ctx and cfg = cfg]) (simp_all add: assms)
qed

subsection \<open>The third loop\<close>

text \<open>An invariant \<open>I\<close> of the loop, indexed by the outputs still to be visited, holds
  of the state in which the loop returns; \<open>A\<close> holds of the state in which it aborts.\<close>

lemma blind_loop_rule:
  assumes "I idxs s"
    and "\<And>nOut rest s s'. I (nOut # rest) s \<Longrightarrow>
           blind_output E ctx cfg pks nOut s = Return s' \<Longrightarrow> I rest s'"
    and "\<And>nOut rest s s'. I (nOut # rest) s \<Longrightarrow>
           blind_output E ctx cfg pks nOut s = Abort s' \<Longrightarrow> A s'"
  shows "case blind_loop E ctx cfg pks idxs s of Return s' \<Rightarrow> I [] s' | Abort s' \<Rightarrow> A s'"
  using assms(1)
proof (induction idxs arbitrary: s)
  case Nil
  then show ?case by simp
next
  case (Cons nOut rest)
  show ?case
  proof (cases "blind_output E ctx cfg pks nOut s")
    case (Abort s')
    with Cons.prems assms(3) show ?thesis by simp
  next
    case (Return s')
    with Cons.prems assms(2) have "I rest s'" by blast
    from Cons.IH [OF this] Return show ?thesis by simp
  qed
qed

text \<open>The loop keeps the inputs and the number of outputs, and every output it does not
  visit or that is not to be blinded.\<close>

lemma blind_loop_shape:
  "vin (tx (state_of (blind_loop E ctx cfg pks idxs s))) = vin (tx s) \<and>
   length (vout (tx (state_of (blind_loop E ctx cfg pks idxs s)))) = length (vout (tx s))"
proof (induction idxs arbitrary: s)
  case Nil
  then show ?case by simp
next
  case (Cons nOut rest)
  show ?case
    using blind_output_shape [of E ctx cfg pks nOut s] Cons.IH
    by (cases "blind_output E ctx cfg pks nOut s") auto
qed

lemma blind_loop_frame:
  assumes "\<not> (IsAmount E (nValue (vout (tx s) ! i)) \<and> IsValid E (pks ! i))"
  shows "vout (tx (state_of (blind_loop E ctx cfg pks idxs s))) ! i = vout (tx s) ! i"
  using assms
proof (induction idxs arbitrary: s)
  case Nil
  then show ?case by simp
next
  case (Cons nOut rest)
  have step: "vout (tx (state_of (blind_output E ctx cfg pks nOut s))) ! i = vout (tx s) ! i"
  proof (cases "i = nOut")
    case True
    with Cons.prems show ?thesis by (simp add: blind_output_skip)
  next
    case False
    then show ?thesis by (rule blind_output_other)
  qed
  show ?case
  proof (cases "blind_output E ctx cfg pks nOut s")
    case (Abort s')
    with step show ?thesis by simp
  next
    case (Return s')
    with step Cons.prems have "\<not> (IsAmount E (nValue (vout (tx s') ! i)) \<and> IsValid E (pks ! i))"
      by simp
    from Cons.IH [OF this] Return step show ?thesis by simp
  qed
qed

subsection \<open>What the third loop writes\<close>

lemma written_inv_step:
  assumes inv: "written_inv E ctx cfg pks outs0 (nOut # rest) s"
  shows "written_inv E ctx cfg pks outs0 rest (state_of (blind_output E ctx cfg pks nOut s))"
proof -
  from inv have d: "distinct rest" "nOut \<notin> set rest"
    and len: "length (vout (tx s)) = length outs0"
    and nlt: "nOut < length outs0"
    and rng: "\<forall>i \<in> set rest. i < length outs0"
    and old: "\<forall>ev \<in> set (history s). ev_nOut ev \<noteq> nOut \<and> ev_nOut ev \<notin> set rest \<and>
                recorded E ctx cfg pks outs0 (vout (tx s)) ev"
    and same: "\<forall>i < length outs0. i \<notin> ev_nOut ` set (history s) \<longrightarrow> vout (tx s) ! i = outs0 ! i"
    by (auto simp: written_inv_def)
  from old have "nOut \<notin> ev_nOut ` set (history s)" by auto
  with same nlt have cur: "vout (tx s) ! nOut = outs0 ! nOut" by simp
  have keep: "written_inv E ctx cfg pks outs0 rest s'"
    if "tx s' = tx s" and "history s' = history s" for s'
    using that d len rng old same by (auto simp: written_inv_def)
  show ?thesis
  proof (cases "IsAmount E (nValue (vout (tx s) ! nOut)) \<and> IsValid E (pks ! nOut)")
    case False
    then show ?thesis by (simp add: blind_output_skip keep)
  next
    case True
    then have a: "IsAmount E (nValue (vout (tx s) ! nOut))" and b: "IsValid E (pks ! nOut)"
      by simp_all
    from a b show ?thesis
    proof (cases rule: blind_output_cases [where ctx = ctx and cfg = cfg])
      case no_factor
      then show ?thesis by (simp add: keep)
    next
      case (no_commit src b g)
      then show ?thesis by (simp add: keep)
    next
      case (written src b g v' g' args r)
      let ?ev = "\<lparr>ev_nOut = nOut, ev_source = src, ev_factor = b, ev_args = args,
                   ev_result = r\<rparr>"
      let ?s' = "store_value nOut v' g' ?ev (push_blind b g s)"
      have new: "recorded E ctx cfg pks outs0 (vout (tx ?s')) ?ev"
        using written(2) a b cur nlt len
        by (auto simp: recorded_def vout_set_value_same)
      have olds: "recorded E ctx cfg pks outs0 (vout (tx ?s')) ev"
        if "ev \<in> set (history s)" for ev
        using old that by (auto simp: recorded_def)
      have "written_inv E ctx cfg pks outs0 rest ?s'"
        unfolding written_inv_def
      proof (intro conjI ballI allI impI)
        show "distinct rest" by (rule d)
        show "length (vout (tx ?s')) = length outs0" using len by simp
        show "i < length outs0" if "i \<in> set rest" for i using rng that by simp
        show "ev_nOut ev \<notin> set rest" if "ev \<in> set (history ?s')" for ev
          using that old d by auto
        show "recorded E ctx cfg pks outs0 (vout (tx ?s')) ev" if "ev \<in> set (history ?s')" for ev
          using that new olds by auto
        show "vout (tx ?s') ! i = outs0 ! i"
          if "i < length outs0" and "i \<notin> ev_nOut ` set (history ?s')" for i
          using that same by auto
      qed
      with written(3) show ?thesis by simp
    qed
  qed
qed

lemma written_inv_loop:
  assumes "written_inv E ctx cfg pks outs0 idxs s"
  shows "written_inv E ctx cfg pks outs0 [] (state_of (blind_loop E ctx cfg pks idxs s))"
  using assms
proof (induction idxs arbitrary: s)
  case Nil
  then show ?case by simp
next
  case (Cons nOut rest)
  from written_inv_step [OF Cons.prems]
  have step: "written_inv E ctx cfg pks outs0 rest (state_of (blind_output E ctx cfg pks nOut s))" .
  show ?case
  proof (cases "blind_output E ctx cfg pks nOut s")
    case (Abort s')
    with step show ?thesis by (simp add: written_inv_def)
  next
    case (Return s')
    with step Cons.IH [of s'] show ?thesis by simp
  qed
qed

text \<open>Whatever the outcome of the call: every entry of the history records the rewriting
  of its output, and an output without an entry is the output that was passed in.\<close>

lemma BlindOutputs_written:
  "written_inv E ctx cfg pks (vout t) [] (state_of (BlindOutputs E ctx cfg g ibf obf pks t))"
proof (cases "precondition E ibf obf pks t")
  case False
  from BlindOutputs_rejected [OF this, of ctx cfg g] show ?thesis
    by (simp add: written_inv_def)
next
  case True
  have "written_inv E ctx cfg pks (vout t) [0..<length (vout t)]
          (checked_state E ibf obf pks t g)"
    by (simp add: written_inv_def checked_state_def)
  from written_inv_loop [OF this] show ?thesis
    by (simp add: BlindOutputs_accepted [OF True])
qed

subsection \<open>The run of the concrete instance\<close>

lemma demo_run:
  "BlindOutputs demo None cfg 0 [replicate 32 9] [[], [], []] [demo_pubkey 4, [], demo_pubkey 5]
     demo_tx = Return (demo_final cfg)"
  by code_simp

subsection \<open>Outputs that are not to be blinded\<close>

text \<open>C7: an output that is already blinded before the call, or that is explicit with an
  invalid (or absent) recipient public key, is the same output after the call, whether
  the call returns or aborts, and the call keeps the number of outputs.\<close>

theorem C7_ineligible_outputs_unchanged:
  assumes "i < length (vout t)"
    and "\<not> IsAmount E (nValue (vout t ! i)) \<or> \<not> IsValid E (output_pubkeys ! i)"
  shows "vout (tx (state_of (BlindOutputs E ctx cfg g ibf obf output_pubkeys t))) ! i = vout t ! i \<and>
         length (vout (tx (state_of (BlindOutputs E ctx cfg g ibf obf output_pubkeys t)))) =
           length (vout t)"
proof (cases "precondition E ibf obf output_pubkeys t")
  case False
  from BlindOutputs_rejected [OF this] show ?thesis by simp
next
  case True
  from assms(2)
  have "\<not> (IsAmount E (nValue (vout (tx (checked_state E ibf obf output_pubkeys t g)) ! i)) \<and>
            IsValid E (output_pubkeys ! i))"
    by (auto simp: checked_state_def)
  from blind_loop_frame [OF this]
    blind_loop_shape [of E ctx cfg output_pubkeys "[0..<length (vout t)]"
      "checked_state E ibf obf output_pubkeys t g"]
  show ?thesis
    by (simp add: BlindOutputs_accepted [OF True] checked_state_def)
qed

theorem C7_ineligible_outputs_unchanged_witness:
  "(1 :: nat) < length (vout demo_tx) \<and>
   \<not> IsValid demo ([demo_pubkey 4, [], demo_pubkey 5] ! 1) \<and>
   returned (BlindOutputs demo None demo_cfg 0 [replicate 32 9] [[], [], []]
      [demo_pubkey 4, [], demo_pubkey 5] demo_tx) \<and>
   vout (tx (state_of (BlindOutputs demo None demo_cfg 0 [replicate 32 9] [[], [], []]
      [demo_pubkey 4, [], demo_pubkey 5] demo_tx))) ! 1 = txout_of (explicit_value 6)"
proof -
  have h1: "(1 :: nat) < length (vout demo_tx)"
    by (simp add: demo_tx_def)
  have h2: "\<not> IsValid demo ([demo_pubkey 4, [], demo_pubkey 5] ! 1)"
    by (simp add: demo_def demo_valid_def)
  have h3: "vout demo_tx ! 1 = txout_of (explicit_value 6)"
    by (simp add: demo_tx_def)
  show ?thesis
    using h1 h2 h3
      C7_ineligible_outputs_unchanged [OF h1 disjI2, OF h2, of None demo_cfg 0
        "[replicate 32 9]" "[[], [], []]"]
    by (simp add: demo_run)
qed

subsection \<open>The arguments of range-proof signing\<close>

lemma create_blinded_value_Some:
  assumes "create_blinded_value E ctx cfg pk b g v = Some (v', g', args, r)"
  shows "args = \<lparr>sa_plen = 5134, sa_min_value = 0, sa_commit = vchCommitment v', sa_blind = b,
                  sa_nonce = CHash256 E (pk_bytes E (ECDH E (fst (MakeNewKey E g True)) pk)),
                  sa_exp = ct_exponent cfg, sa_min_bits = ct_bits cfg,
                  sa_value = GetAmount E v\<rparr>"
    and "r = rangeproof_sign E ctx args"
    and "vchRangeproof v' =
           resize (sg_plen r) (write_at0 (sg_proof r) (resize 5134 (vchRangeproof v)))"
    and "vchNonceCommitment v' =
           write_at0 (pk_first33 E (GetPubKey E (fst (MakeNewKey E g True))))
             (resize 33 (vchNonceCommitment v))"
    and "\<exists>c. pedersen_commit E ctx b (GetAmount E v) = Some c \<and>
             vchCommitment v' = write_at0 c (vchCommitment v)"
  using assms
  by (auto simp: create_blinded_value_def Let_def split: option.splits prod.splits)

lemma length_resize [simp]: "length (resize n v) = n"
  by (simp add: resize_def)





lemma BlindOutputs_event:
  assumes "ev \<in> set (history (state_of (BlindOutputs E ctx cfg g ibf obf pks t)))"
  shows "recorded E ctx cfg pks (vout t)
           (vout (tx (state_of (BlindOutputs E ctx cfg g ibf obf pks t)))) ev"
  using BlindOutputs_written [of E ctx cfg pks t g ibf obf] assms
  by (simp add: written_inv_def)

lemma recorded_sign:
  assumes "recorded E ctx cfg pks outs0 outs ev"
  shows "ev_result ev = rangeproof_sign E ctx (ev_args ev) \<and>
         sa_plen (ev_args ev) = 5134 \<and> sa_min_value (ev_args ev) = 0 \<and>
         sa_exp (ev_args ev) = ct_exponent cfg \<and> sa_min_bits (ev_args ev) = ct_bits cfg \<and>
         vchRangeproof (nValue (outs ! ev_nOut ev)) =
           resize (sg_plen (ev_result ev))
             (write_at0 (sg_proof (ev_result ev))
                (resize 5134 (vchRangeproof (nValue (outs0 ! ev_nOut ev)))))"
proof -
  from assms obtain g g' where
    c: "create_blinded_value E ctx cfg (pks ! ev_nOut ev) (ev_factor ev) g
          (nValue (outs0 ! ev_nOut ev)) =
        Some (nValue (outs ! ev_nOut ev), g', ev_args ev, ev_result ev)"
    by (auto simp: recorded_def)
  from create_blinded_value_Some(2) [OF c] create_blinded_value_Some(3) [OF c]
  show ?thesis
    by (simp add: create_blinded_value_Some(1) [OF c])
qed




text \<open>C9: for every output that BlindOutputs has rewritten (every entry of the
  history), the stored range proof is the buffer of 5134 bytes, written by the signing
  call and resized to the proof length that call reported; its length is exactly that
  reported length, and it is at most 5134 bytes when the signing primitive keeps its
  contract of reporting no more than the capacity it was given. No other output is
  touched.\<close>

theorem C9_rangeproof_length:
  assumes "ev \<in> set (history (state_of (BlindOutputs E ctx cfg g ibf obf pks t)))"
  shows "ev_nOut ev < length (vout t) \<and>
    ev_result ev = rangeproof_sign E ctx (ev_args ev) \<and> sa_plen (ev_args ev) = 5134 \<and>
    vchRangeproof (nValue (vout (tx (state_of (BlindOutputs E ctx cfg g ibf obf pks t))) !
        ev_nOut ev)) =
      resize (sg_plen (ev_result ev))
        (write_at0 (sg_proof (ev_result ev))
           (resize 5134 (vchRangeproof (nValue (vout t ! ev_nOut ev))))) \<and>
    length (vchRangeproof (nValue
        (vout (tx (state_of (BlindOutputs E ctx cfg g ibf obf pks t))) ! ev_nOut ev))) =
      sg_plen (ev_result ev) \<and>
    ((\<forall>a. sg_plen (rangeproof_sign E ctx a) \<le> sa_plen a) \<longrightarrow>
       length (vchRangeproof (nValue
         (vout (tx (state_of (BlindOutputs E ctx cfg g ibf obf pks t))) ! ev_nOut ev))) \<le> 5134) \<and>
    (\<forall>i < length (vout t).
       i \<notin> ev_nOut ` set (history (state_of (BlindOutputs E ctx cfg g ibf obf pks t))) \<longrightarrow>
       vout (tx (state_of (BlindOutputs E ctx cfg g ibf obf pks t))) ! i = vout t ! i)"
proof -
  let ?s = "state_of (BlindOutputs E ctx cfg g ibf obf pks t)"
  note rec = BlindOutputs_event [OF assms]
  note r = recorded_sign [OF rec]
  have l: "length (vchRangeproof (nValue (vout (tx ?s) ! ev_nOut ev))) = sg_plen (ev_result ev)"
    using r by simp
  have b: "(\<forall>a. sg_plen (rangeproof_sign E ctx a) \<le> sa_plen a) \<longrightarrow>
       sg_plen (ev_result ev) \<le> 5134"
  proof
    assume "\<forall>a. sg_plen (rangeproof_sign E ctx a) \<le> sa_plen a"
    then have "sg_plen (rangeproof_sign E ctx (ev_args ev)) \<le> sa_plen (ev_args ev)" ..
    with r show "sg_plen (ev_result ev) \<le> 5134" by simp
  qed
  have u: "\<forall>i < length (vout t). i \<notin> ev_nOut ` set (history ?s) \<longrightarrow>
       vout (tx ?s) ! i = vout t ! i"
    using BlindOutputs_written [of E ctx cfg pks t g ibf obf] by (simp add: written_inv_def)
  have n: "ev_nOut ev < length (vout t)"
    using rec by (simp add: recorded_def)
  show ?thesis
    using n r l b u by simp
qed

lemma demo_sign_plen: "sg_plen (rangeproof_sign demo None a) \<le> sa_plen a"
  by (simp add: demo_def demo_sign_def Let_def)

theorem C9_rangeproof_length_witness:
  "demo_event demo_cfg 0 Sampled (replicate 32 0) 5 8 \<in>
     set (history (state_of (BlindOutputs demo None demo_cfg 0 [replicate 32 9] [[], [], []]
       [demo_pubkey 4, [], demo_pubkey 5] demo_tx))) \<and>
   (\<forall>a. sg_plen (rangeproof_sign demo None a) \<le> sa_plen a) \<and>
   sg_plen (ev_result (demo_event demo_cfg 0 Sampled (replicate 32 0) 5 8)) = 69 \<and>
   length (vchRangeproof (nValue (vout (tx (state_of
     (BlindOutputs demo None demo_cfg 0 [replicate 32 9] [[], [], []]
       [demo_pubkey 4, [], demo_pubkey 5] demo_tx))) ! 0))) = 69"
proof -
  have h: "demo_event demo_cfg 0 Sampled (replicate 32 0) 5 8 \<in>
     set (history (state_of (BlindOutputs demo None demo_cfg 0 [replicate 32 9] [[], [], []]
       [demo_pubkey 4, [], demo_pubkey 5] demo_tx)))"
    by (simp add: demo_run demo_final_def)
  have p: "sg_plen (ev_result (demo_event demo_cfg 0 Sampled (replicate 32 0) 5 8)) = 69"
    by (simp add: demo_event_def)
  have n: "ev_nOut (demo_event demo_cfg 0 Sampled (replicate 32 0) 5 8) = 0"
    by (simp add: demo_event_def)
  show ?thesis
    using h p n demo_sign_plen C9_rangeproof_length [OF h] by simp
qed

subsection \<open>The factors of the rewritten outputs\<close>

lemma new_blind_Some:
  assumes "new_blind E ctx s = Some (src, b, g)"
  shows "if nBlinded s + 1 = nToBlind s
         then src = Derived \<and>
              pedersen_blind_sum E ctx (blindptrs s) (nBlindsOut s + nBlindsIn s) (nBlindsIn s) =
                Some b
         else src = Sampled \<and> b = fst (GetRandBytes E (rng s) 32)"
  using assms by (auto simp: new_blind_def split: if_splits option.splits prod.splits)

lemma factor_rule_append:
  assumes "k < length evs"
  shows "factor_rule E ctx base NI NO N (evs @ [ev]) k = factor_rule E ctx base NI NO N evs k"
  using assms by (simp add: factor_rule_def nth_append)

lemma factors_inv_step:
  assumes inv: "factors_inv E ctx pks outs0 base NI NO (nOut # rest) s"
    and ret: "blind_output E ctx cfg pks nOut s = Return s'"
  shows "factors_inv E ctx pks outs0 base NI NO rest s'"
proof -
  let ?elig = "\<lambda>i. IsAmount E (nValue (outs0 ! i)) \<and> IsValid E (pks ! i)"
  let ?N = "length (to_blind E pks outs0)"
  from inv have d: "distinct rest" "nOut \<notin> set rest"
    and cur: "vout (tx s) ! nOut = outs0 ! nOut"
    and same: "\<forall>i \<in> set rest. vout (tx s) ! i = outs0 ! i"
    and idx: "map ev_nOut (history s) @ filter ?elig (nOut # rest) = to_blind E pks outs0"
    and cnt: "nBlinded s = length (history s)" "nToBlind s = ?N" "nBlindsIn s = NI"
      "nBlindsOut s = NO + length (history s)"
    and ptr: "blindptrs s = base @ map ev_factor (history s)"
    and rule: "\<forall>k < length (history s). factor_rule E ctx base NI NO ?N (history s) k"
    by (auto simp: factors_inv_def)
  show ?thesis
  proof (cases "?elig nOut")
    case False
    with cur have "blind_output E ctx cfg pks nOut s = Return s"
      by (simp add: blind_output_skip)
    with ret have "s' = s" by simp
    moreover from False idx
    have "map ev_nOut (history s) @ filter ?elig rest = to_blind E pks outs0"
      by auto
    ultimately show ?thesis
      using d same cnt ptr rule by (simp add: factors_inv_def)
  next
    case True
    with cur have a: "IsAmount E (nValue (vout (tx s) ! nOut))" and b: "IsValid E (pks ! nOut)"
      by simp_all
    from a b show ?thesis
    proof (cases rule: blind_output_cases [where ctx = ctx and cfg = cfg])
      case no_factor
      with ret show ?thesis by simp
    next
      case (no_commit src b g)
      with ret show ?thesis by simp
    next
      case (written src b g v' g' args r)
      let ?ev = "\<lparr>ev_nOut = nOut, ev_source = src, ev_factor = b, ev_args = args,
                   ev_result = r\<rparr>"
      from written(3) ret
      have s': "s' = store_value nOut v' g' ?ev (push_blind b g s)"
        by (cases "sg_res r = 0") simp_all
      have h': "history s' = history s @ [?ev]" and t': "tx s' = set_value nOut v' (tx s)"
        by (simp_all add: s')
      have c': "nBlinded s' = length (history s')" "nToBlind s' = ?N" "nBlindsIn s' = NI"
        "nBlindsOut s' = NO + length (history s')"
        using cnt by (simp_all add: s' store_value_def push_blind_def)
      have p': "blindptrs s' = base @ map ev_factor (history s')"
        using ptr by (simp add: s' store_value_def push_blind_def)
      have i': "map ev_nOut (history s') @ filter ?elig rest = to_blind E pks outs0"
        using idx True by (simp add: h')
      have o': "\<forall>i \<in> set rest. vout (tx s') ! i = outs0 ! i"
      proof
        fix i
        assume i: "i \<in> set rest"
        with d have "i \<noteq> nOut" by auto
        with same i show "vout (tx s') ! i = outs0 ! i" by (simp add: t')
      qed
      have new: "factor_rule E ctx base NI NO ?N (history s') (length (history s))"
        using new_blind_Some [OF written(1)] cnt ptr
        by (auto simp: factor_rule_def h' ac_simps)
      have r': "factor_rule E ctx base NI NO ?N (history s') k" if "k < length (history s')" for k
      proof (cases "k < length (history s)")
        case True
        with rule show ?thesis by (simp add: h' factor_rule_append)
      next
        case False
        with that have "k = length (history s)" by (simp add: h')
        with new show ?thesis by simp
      qed
      from d c' p' i' o' r' show ?thesis
        by (simp add: factors_inv_def)
    qed
  qed
qed

lemma factors_inv_loop:
  assumes "factors_inv E ctx pks outs0 base NI NO idxs s"
    and "blind_loop E ctx cfg pks idxs s = Return s'"
  shows "factors_inv E ctx pks outs0 base NI NO [] s'"
proof -
  have "case blind_loop E ctx cfg pks idxs s of
          Return s' \<Rightarrow> factors_inv E ctx pks outs0 base NI NO [] s' | Abort s' \<Rightarrow> True"
    by (rule blind_loop_rule [where I = "factors_inv E ctx pks outs0 base NI NO"])
      (use assms(1) in \<open>auto intro: factors_inv_step\<close>)
  with assms(2) show ?thesis by simp
qed

lemma BlindOutputs_Return_precondition:
  assumes "BlindOutputs E ctx cfg g ibf obf pks t = Return s'"
  shows "precondition E ibf obf pks t"
proof (rule ccontr)
  assume "\<not> precondition E ibf obf pks t"
  from BlindOutputs_rejected [OF this, of ctx cfg g] assms show False by simp
qed

lemma BlindOutputs_factors:
  assumes "BlindOutputs E ctx cfg g ibf obf pks t = Return s'"
  shows "factors_inv E ctx pks (vout t) (known ibf @ known obf) (length (known ibf))
           (length (known obf)) [] s'"
proof -
  note pre = BlindOutputs_Return_precondition [OF assms]
  from pre have st: "\<forall>i \<in> {0..<length (vout t)}.
      (\<not> IsAmount E (nValue (vout t ! i))) = (length (obf ! i) \<noteq> 0)"
    by (simp add: precondition_def)
  have f: "filter (\<lambda>i. length (obf ! i) = 0 \<and> IsValid E (pks ! i)) [0..<length (vout t)] =
           to_blind E pks (vout t)"
    unfolding to_blind_def using st by (intro filter_cong) auto
  have "factors_inv E ctx pks (vout t) (known ibf @ known obf) (length (known ibf))
          (length (known obf)) [0..<length (vout t)] (checked_state E ibf obf pks t g)"
    using f by (simp add: factors_inv_def checked_state_def to_blind_def)
  moreover have "blind_loop E ctx cfg pks [0..<length (vout t)] (checked_state E ibf obf pks t g) =
      Return s'"
    using assms by (simp add: BlindOutputs_accepted [OF pre])
  ultimately show ?thesis by (rule factors_inv_loop)
qed

lemma sorted_to_blind: "sorted_wrt (<) (to_blind E pks outs)"
  by (simp add: to_blind_def sorted_wrt_filter)

lemma recorded_commit:
  assumes "recorded E ctx cfg pks outs0 outs ev"
  shows "\<exists>c. pedersen_commit E ctx (ev_factor ev) (GetAmount E (nValue (outs0 ! ev_nOut ev))) =
               Some c \<and>
             vchCommitment (nValue (outs ! ev_nOut ev)) =
               write_at0 c (vchCommitment (nValue (outs0 ! ev_nOut ev)))"
proof -
  from assms obtain g g' where
    c: "create_blinded_value E ctx cfg (pks ! ev_nOut ev) (ev_factor ev) g
          (nValue (outs0 ! ev_nOut ev)) =
        Some (nValue (outs ! ev_nOut ev), g', ev_args ev, ev_result ev)"
    by (auto simp: recorded_def)
  from create_blinded_value_Some(5) [OF c] show ?thesis .
qed

text \<open>C4: when a call returns and at least one output needed a new factor, the outputs
  it has rewritten are exactly those outputs, in ascending index; the factor of the last
  of them, and of no other, was derived by the blind-sum primitive, applied to the input
  factors (counted positively) followed by the output factors collected so far (the
  supplied ones and the sampled ones); every other new factor was sampled from the random
  source; each commitment was made with the factor of its output. As a result, for any
  reading \<open>sc\<close> of factors as elements of a commutative group for which the blind-sum
  primitive returns the sum of the positive factors minus the sum of the others, the sum
  of all output factors equals the sum of all input factors.\<close>

theorem C4_last_output_balances:
  fixes sc :: "bytes \<Rightarrow> 'a::ab_group_add"
  assumes "BlindOutputs E ctx cfg g ibf obf pks t = Return s'"
    and "to_blind E pks (vout t) \<noteq> []"
  shows "map ev_nOut (history s') = to_blind E pks (vout t) \<and>
    sorted_wrt (<) (to_blind E pks (vout t)) \<and>
    map ev_source (history s') =
      replicate (length (to_blind E pks (vout t)) - 1) Sampled @ [Derived] \<and>
    ev_nOut (last (history s')) = last (to_blind E pks (vout t)) \<and>
    pedersen_blind_sum E ctx (known ibf @ known obf @ map ev_factor (butlast (history s')))
      (length (known obf @ map ev_factor (butlast (history s'))) + length (known ibf))
      (length (known ibf)) = Some (ev_factor (last (history s'))) \<and>
    (\<forall>k < length (history s') - 1. \<exists>r. ev_factor (history s' ! k) = fst (GetRandBytes E r 32)) \<and>
    blindptrs s' = known ibf @ known obf @ map ev_factor (history s') \<and>
    (\<forall>ev \<in> set (history s').
       \<exists>c. pedersen_commit E ctx (ev_factor ev) (GetAmount E (nValue (vout t ! ev_nOut ev))) =
              Some c \<and>
            vchCommitment (nValue (vout (tx s') ! ev_nOut ev)) =
              write_at0 c (vchCommitment (nValue (vout t ! ev_nOut ev)))) \<and>
    ((\<forall>bs n np b. pedersen_blind_sum E ctx bs n np = Some b \<longrightarrow>
         sc b = sum_list (map sc (take np (take n bs))) - sum_list (map sc (drop np (take n bs)))) \<longrightarrow>
     sum_list (map sc (known obf @ map ev_factor (history s'))) = sum_list (map sc (known ibf)))"
proof -
  let ?L = "to_blind E pks (vout t)"
  let ?evs = "history s'"
  let ?N = "length ?L"
  let ?base = "known ibf @ known obf"
  from BlindOutputs_factors [OF assms(1)]
  have idx: "map ev_nOut ?evs = ?L"
    and ptr: "blindptrs s' = ?base @ map ev_factor ?evs"
    and rule: "\<forall>k < length ?evs.
        factor_rule E ctx ?base (length (known ibf)) (length (known obf)) ?N ?evs k"
    by (simp_all add: factors_inv_def)
  from idx have len: "length ?evs = ?N"
    by (metis length_map)
  from assms(2) have pos: "0 < ?N" by simp
  with len have ne: "?evs \<noteq> []" by auto
  have src: "map ev_source ?evs = replicate (?N - 1) Sampled @ [Derived]"
  proof (rule nth_equalityI)
    show "length (map ev_source ?evs) = length (replicate (?N - 1) Sampled @ [Derived])"
      using len pos by simp
  next
    fix k
    assume "k < length (map ev_source ?evs)"
    then have k: "k < ?N" using len by simp
    with rule len
    have "factor_rule E ctx ?base (length (known ibf)) (length (known obf)) ?N ?evs k"
      by simp
    then have "ev_source (?evs ! k) = (if Suc k = ?N then Derived else Sampled)"
      by (simp add: factor_rule_def split: if_splits)
    moreover have "(replicate (?N - 1) Sampled @ [Derived]) ! k =
        (if Suc k = ?N then Derived else Sampled)"
      using k by (auto simp: nth_append)
    ultimately show "map ev_source ?evs ! k = (replicate (?N - 1) Sampled @ [Derived]) ! k"
      using k len by simp
  qed
  have lastn: "ev_nOut (last ?evs) = last ?L"
    using idx ne by (metis last_map)
  have lst: "?evs ! (?N - 1) = last ?evs" and bl: "take (?N - 1) ?evs = butlast ?evs"
    using len ne by (simp_all add: last_conv_nth butlast_conv_take)
  from rule len pos
  have "factor_rule E ctx ?base (length (known ibf)) (length (known obf)) ?N ?evs (?N - 1)"
    by simp
  with pos lst bl have sum: "pedersen_blind_sum E ctx (?base @ map ev_factor (butlast ?evs))
      (length (known obf) + (?N - 1) + length (known ibf)) (length (known ibf)) =
      Some (ev_factor (last ?evs))"
    by (simp add: factor_rule_def)
  have lb: "length (butlast ?evs) = ?N - 1"
    using len by simp
  have sampled: "\<forall>k < length ?evs - 1. \<exists>r. ev_factor (?evs ! k) = fst (GetRandBytes E r 32)"
  proof (intro allI impI)
    fix k
    assume k: "k < length ?evs - 1"
    with rule
    have "factor_rule E ctx ?base (length (known ibf)) (length (known obf)) ?N ?evs k"
      by simp
    with k len show "\<exists>r. ev_factor (?evs ! k) = fst (GetRandBytes E r 32)"
      by (simp add: factor_rule_def split: if_splits)
  qed
  have com: "\<forall>ev \<in> set ?evs.
       \<exists>c. pedersen_commit E ctx (ev_factor ev) (GetAmount E (nValue (vout t ! ev_nOut ev))) =
              Some c \<and>
            vchCommitment (nValue (vout (tx s') ! ev_nOut ev)) =
              write_at0 c (vchCommitment (nValue (vout t ! ev_nOut ev)))"
  proof
    fix ev
    assume "ev \<in> set ?evs"
    with assms(1) have "ev \<in> set (history (state_of (BlindOutputs E ctx cfg g ibf obf pks t)))"
      by simp
    from recorded_commit [OF BlindOutputs_event [OF this]] assms(1)
    show "\<exists>c. pedersen_commit E ctx (ev_factor ev) (GetAmount E (nValue (vout t ! ev_nOut ev))) =
              Some c \<and>
            vchCommitment (nValue (vout (tx s') ! ev_nOut ev)) =
              write_at0 c (vchCommitment (nValue (vout t ! ev_nOut ev)))"
      by simp
  qed
  have bal: "sum_list (map sc (known obf @ map ev_factor ?evs)) = sum_list (map sc (known ibf))"
    if c: "\<forall>bs n np b. pedersen_blind_sum E ctx bs n np = Some b \<longrightarrow>
         sc b = sum_list (map sc (take np (take n bs))) - sum_list (map sc (drop np (take n bs)))"
  proof -
    let ?outs = "known obf @ map ev_factor (butlast ?evs)"
    let ?n = "length (known obf) + (?N - 1) + length (known ibf)"
    let ?bs = "?base @ map ev_factor (butlast ?evs)"
    have full: "take ?n ?bs = ?bs"
      using lb by simp
    from c sum have "sc (ev_factor (last ?evs)) =
        sum_list (map sc (take (length (known ibf)) (take ?n ?bs))) -
        sum_list (map sc (drop (length (known ibf)) (take ?n ?bs)))"
      by blast
    then have "sc (ev_factor (last ?evs)) =
        sum_list (map sc (take (length (known ibf)) ?bs)) -
        sum_list (map sc (drop (length (known ibf)) ?bs))"
      by (simp only: full)
    then have "sc (ev_factor (last ?evs)) = sum_list (map sc (known ibf)) - sum_list (map sc ?outs)"
      by simp
    moreover have "map ev_factor ?evs = map ev_factor (butlast ?evs) @ [ev_factor (last ?evs)]"
      using ne by (metis append_butlast_last_id list.simps(8,9) map_append)
    ultimately show ?thesis
      by (simp add: algebra_simps)
  qed
  have sum': "pedersen_blind_sum E ctx (known ibf @ known obf @ map ev_factor (butlast ?evs))
      (length (known obf @ map ev_factor (butlast ?evs)) + length (known ibf))
      (length (known ibf)) = Some (ev_factor (last ?evs))"
    using sum len by simp
  from idx sorted_to_blind [of E pks "vout t"] src lastn sum' sampled ptr com bal
  show ?thesis by simp
qed

lemma demo_blind_sum_scalar:
  "pedersen_blind_sum demo None bs n np = Some b \<longrightarrow>
   demo_scalar b = sum_list (map demo_scalar (take np (take n bs))) -
     sum_list (map demo_scalar (drop np (take n bs)))"
  by (auto simp: demo_def demo_blind_sum_def demo_scalar_def)

theorem C4_last_output_balances_witness:
  "BlindOutputs demo None demo_cfg 0 [replicate 32 9] [[], [], []]
     [demo_pubkey 4, [], demo_pubkey 5] demo_tx = Return (demo_final demo_cfg) \<and>
   to_blind demo [demo_pubkey 4, [], demo_pubkey 5] (vout demo_tx) = [0, 2] \<and>
   map ev_nOut (history (demo_final demo_cfg)) = [0, 2] \<and>
   map ev_source (history (demo_final demo_cfg)) = [Sampled, Derived] \<and>
   sum_list (map demo_scalar (map ev_factor (history (demo_final demo_cfg)))) =
     sum_list (map demo_scalar [replicate 32 9])"
proof -
  have r: "BlindOutputs demo None demo_cfg 0 [replicate 32 9] [[], [], []]
     [demo_pubkey 4, [], demo_pubkey 5] demo_tx = Return (demo_final demo_cfg)"
    by (rule demo_run)
  have l: "to_blind demo [demo_pubkey 4, [], demo_pubkey 5] (vout demo_tx) = [0, 2]"
    by code_simp
  then have n: "to_blind demo [demo_pubkey 4, [], demo_pubkey 5] (vout demo_tx) \<noteq> []"
    by simp
  have k: "known [[], [], []] = [] \<and> known [replicate 32 9] = [replicate 32 9]"
    by (simp add: known_def)
  show ?thesis
    using r l k demo_blind_sum_scalar
      C4_last_output_balances [OF r n, where sc = demo_scalar]
    by simp
qed

subsection \<open>Blinding, then unblinding\<close>

lemma write_at0_cover: "length dst \<le> length src \<Longrightarrow> write_at0 src dst = src"
  by (simp add: write_at0_def)

lemma resize_write_at0: "resize (length p) (write_at0 p buf) = p"
  by (simp add: resize_def write_at0_def)

text \<open>In a call that returns, every signing call has succeeded.\<close>

lemma blind_loop_signed:
  assumes "\<forall>ev \<in> set (history s). sg_res (ev_result ev) \<noteq> 0"
    and "blind_loop E ctx cfg pks idxs s = Return s'"
  shows "\<forall>ev \<in> set (history s'). sg_res (ev_result ev) \<noteq> 0"
proof -
  have step: "\<forall>ev \<in> set (history s2). sg_res (ev_result ev) \<noteq> 0"
    if inv: "\<forall>ev \<in> set (history s1). sg_res (ev_result ev) \<noteq> 0"
      and ret: "blind_output E ctx cfg pks nOut s1 = Return s2"
    for nOut s1 s2
  proof (cases "IsAmount E (nValue (vout (tx s1) ! nOut)) \<and> IsValid E (pks ! nOut)")
    case False
    with ret inv show ?thesis by (simp add: blind_output_skip)
  next
    case True
    then have a: "IsAmount E (nValue (vout (tx s1) ! nOut))" and b: "IsValid E (pks ! nOut)"
      by simp_all
    from a b show ?thesis
    proof (cases rule: blind_output_cases [where ctx = ctx and cfg = cfg])
      case no_factor
      with ret show ?thesis by simp
    next
      case (no_commit src b g)
      with ret show ?thesis by simp
    next
      case (written src b g v' g' args r)
      with ret inv show ?thesis
        by (cases "sg_res r = 0") auto
    qed
  qed
  have "case blind_loop E ctx cfg pks idxs s of
          Return s' \<Rightarrow> \<forall>ev \<in> set (history s'). sg_res (ev_result ev) \<noteq> 0 | Abort s' \<Rightarrow> True"
    by (rule blind_loop_rule
          [where I = "\<lambda>rest s. \<forall>ev \<in> set (history s). sg_res (ev_result ev) \<noteq> 0"])
      (use assms(1) step in \<open>blast+\<close>)
  with assms(2) show ?thesis by simp
qed

lemma BlindOutputs_signed:
  assumes "BlindOutputs E ctx cfg g ibf obf pks t = Return s'"
  shows "\<forall>ev \<in> set (history s'). sg_res (ev_result ev) \<noteq> 0"
proof -
  note pre = BlindOutputs_Return_precondition [OF assms]
  have "blind_loop E ctx cfg pks [0..<length (vout t)] (checked_state E ibf obf pks t g) =
      Return s'"
    using assms by (simp add: BlindOutputs_accepted [OF pre])
  moreover have "\<forall>ev \<in> set (history (checked_state E ibf obf pks t g)).
      sg_res (ev_result ev) \<noteq> 0"
    by (simp add: checked_state_def)
  ultimately show ?thesis
    using blind_loop_signed by blast
qed

text \<open>Under the contracts, every new factor has 32 bytes.\<close>

lemma BlindOutputs_factor_length:
  assumes "roundtrip_contract E ctx"
    and "BlindOutputs E ctx cfg g ibf obf pks t = Return s'"
    and "ev \<in> set (history s')"
  shows "length (ev_factor ev) = 32 \<and> ev_factor ev \<in> set (blindptrs s')"
proof -
  from BlindOutputs_factors [OF assms(2)]
  have ptr: "blindptrs s' = (known ibf @ known obf) @ map ev_factor (history s')"
    and rule: "\<forall>k < length (history s').
        factor_rule E ctx (known ibf @ known obf) (length (known ibf)) (length (known obf))
          (length (to_blind E pks (vout t))) (history s') k"
    by (simp_all add: factors_inv_def)
  from assms(3) obtain k where k: "k < length (history s')" and ev: "history s' ! k = ev"
    by (auto simp: in_set_conv_nth)
  from assms(1) have rnd: "\<forall>g. length (fst (GetRandBytes E g 32)) = 32"
    and sum: "\<forall>bs n np b. pedersen_blind_sum E ctx bs n np = Some b \<longrightarrow> length b = 32"
    by (simp_all add: roundtrip_contract_def)
  from rule k
  have "factor_rule E ctx (known ibf @ known obf) (length (known ibf)) (length (known obf))
          (length (to_blind E pks (vout t))) (history s') k"
    by simp
  with ev rnd sum have "length (ev_factor ev) = 32"
    by (auto simp: factor_rule_def split: if_splits)
  moreover from ptr assms(3) have "ev_factor ev \<in> set (blindptrs s')"
    by simp
  ultimately show ?thesis by simp
qed

text \<open>C3: let the external operations keep their contracts, and let a call of
  BlindOutputs return. For an output that was explicit with an amount A in the valid
  money range (its commitment field no longer than a commitment) and whose recipient key
  is the valid public key of a private key, UnblindOutput with that private key on the
  output as the call has rewritten it returns 1 (success), the amount A, and a blinding
  factor of 32 bytes: the factor the call used, to which, with A, the stored commitment
  is the commitment.\<close>

theorem C3_round_trip:
  assumes contract: "roundtrip_contract E ctx"
    and run: "BlindOutputs E ctx cfg g ibf obf pks t = Return s'"
    and i: "i < length (vout t)"
    and explicit: "IsAmount E (nValue (vout t ! i))"
    and size: "length (vchCommitment (nValue (vout t ! i))) \<le> 33"
    and amount: "GetAmount E (nValue (vout t ! i)) = A"
    and range: "A \<le> MAX_MONEY E" "MoneyRange E A"
    and key: "pks ! i = GetPubKey E key" "IsValid E (GetPubKey E key)"
  shows "\<exists>bf. length bf = 32 \<and> bf \<in> set (blindptrs s') \<and>
           pedersen_commit E ctx bf A = Some (vchCommitment (nValue (vout (tx s') ! i))) \<and>
           UnblindOutput E ctx key (vout (tx s') ! i) a0 b0 =
             \<lparr>ret = 1, amount_out = A, blinding_factor_out = bf\<rparr>"
proof -
  let ?v = "nValue (vout t ! i)"
  let ?v' = "nValue (vout (tx s') ! i)"
  from i explicit key have "i \<in> set (to_blind E pks (vout t))"
    by (simp add: to_blind_def)
  moreover from BlindOutputs_factors [OF run]
  have "map ev_nOut (history s') = to_blind E pks (vout t)"
    by (simp add: factors_inv_def)
  ultimately have "i \<in> ev_nOut ` set (history s')"
    by (metis list.set_map)
  then obtain ev where ev: "ev \<in> set (history s')" and evi: "ev_nOut ev = i"
    by auto
  let ?b = "ev_factor ev"
  from ev run have "ev \<in> set (history (state_of (BlindOutputs E ctx cfg g ibf obf pks t)))"
    by simp
  from BlindOutputs_event [OF this] run evi obtain g0 g' where
    c: "create_blinded_value E ctx cfg (pks ! i) ?b g0 ?v =
          Some (?v', g', ev_args ev, ev_result ev)"
    by (auto simp: recorded_def)
  note args = create_blinded_value_Some(1) [OF c]
  note res = create_blinded_value_Some(2) [OF c]
  note stored = create_blinded_value_Some(3) [OF c]
  note nonce' = create_blinded_value_Some(4) [OF c]
  from create_blinded_value_Some(5) [OF c] amount obtain cm where
    cm: "pedersen_commit E ctx ?b A = Some cm"
    and cm': "vchCommitment ?v' = write_at0 cm (vchCommitment ?v)"
    by auto
  let ?eph = "fst (MakeNewKey E g0 True)"
  from contract have k1: "\<forall>b a c. pedersen_commit E ctx b a = Some c \<longrightarrow> length c = 33"
    and k2: "\<forall>b a v. pedersen_commit E ctx b a = Some (vchCommitment v) \<longrightarrow> \<not> IsAmount E v"
    and k3: "\<forall>a. sg_res (rangeproof_sign E ctx a) \<noteq> 0 \<longrightarrow> length (sa_blind a) = 32 \<longrightarrow>
          pedersen_commit E ctx (sa_blind a) (sa_value a) = Some (sa_commit a) \<longrightarrow>
          sg_plen (rangeproof_sign E ctx a) = length (sg_proof (rangeproof_sign E ctx a)) \<and>
          rw_res (rangeproof_rewind E ctx (sa_nonce a) (sa_commit a)
                    (sg_proof (rangeproof_sign E ctx a))) \<noteq> 0 \<and>
          rw_blind (rangeproof_rewind E ctx (sa_nonce a) (sa_commit a)
                    (sg_proof (rangeproof_sign E ctx a))) = sa_blind a \<and>
          rw_value (rangeproof_rewind E ctx (sa_nonce a) (sa_commit a)
                    (sg_proof (rangeproof_sign E ctx a))) = sa_value a"
    and k4: "IsValid E (GetPubKey E ?eph) \<and> length (pk_first33 E (GetPubKey E ?eph)) = 33 \<and>
          CPubKey E (pk_first33 E (GetPubKey E ?eph)) = GetPubKey E ?eph"
    and k5: "\<forall>k k'. ECDH E k (GetPubKey E k') = ECDH E k' (GetPubKey E k)"
    by (simp_all add: roundtrip_contract_def)
  from BlindOutputs_factor_length [OF contract run ev]
  have b32: "length ?b = 32" and bin: "?b \<in> set (blindptrs s')"
    by simp_all
  from k1 cm have "length cm = 33" by blast
  with size cm' have com: "vchCommitment ?v' = cm"
    by (simp add: write_at0_cover)
  from BlindOutputs_signed [OF run] ev have ok: "sg_res (ev_result ev) \<noteq> 0"
    by simp
  let ?a = "ev_args ev"
  have a1: "sa_blind ?a = ?b" and a2: "sa_value ?a = A" and a3: "sa_commit ?a = cm"
    and a4: "sa_nonce ?a = CHash256 E (pk_bytes E (ECDH E ?eph (pks ! i)))"
    using amount com by (simp_all add: args)
  from k3 [rule_format, of ?a] ok b32 cm res a1 a2 a3
  have plen: "sg_plen (ev_result ev) = length (sg_proof (ev_result ev))"
    and rw: "rw_res (rangeproof_rewind E ctx (sa_nonce ?a) cm (sg_proof (ev_result ev))) \<noteq> 0"
      "rw_blind (rangeproof_rewind E ctx (sa_nonce ?a) cm (sg_proof (ev_result ev))) = ?b"
      "rw_value (rangeproof_rewind E ctx (sa_nonce ?a) cm (sg_proof (ev_result ev))) = A"
    by simp_all
  have rp: "vchRangeproof ?v' = sg_proof (ev_result ev)"
    using stored by (simp add: plen resize_write_at0)
  have nc: "vchNonceCommitment ?v' = pk_first33 E (GetPubKey E ?eph)"
    using nonce' k4 by (simp add: write_at0_cover)
  have blinded: "\<not> IsAmount E ?v'"
    using k2 cm com by blast
  have valid: "IsValid E (CPubKey E (vchNonceCommitment ?v'))"
    using k4 by (simp add: nc)
  have shared: "ECDH E key (CPubKey E (vchNonceCommitment ?v')) = ECDH E ?eph (pks ! i)"
    using k4 k5 key(1) by (simp add: nc)
  let ?r = "rangeproof_rewind E ctx (sa_nonce ?a) cm (sg_proof (ev_result ev))"
  have r: "?r = rangeproof_rewind E ctx
           (CHash256 E (pk_bytes E (ECDH E key (CPubKey E (vchNonceCommitment ?v')))))
           (vchCommitment ?v') (vchRangeproof ?v')"
    by (simp add: shared a4 com rp)
  from range have inr: "\<not> MAX_MONEY E < A" "MoneyRange E A"
    by simp_all
  have "UnblindOutput E ctx key (vout (tx s') ! i) a0 b0 =
      \<lparr>ret = 1, amount_out = A, blinding_factor_out = ?b\<rparr>"
    using UnblindOutput_rewind [OF blinded valid r, of a0 b0] rw inr b32
    by (simp add: write_at0_cover)
  with b32 bin cm com show ?thesis
    by blast
qed

lemma demo_contract: "roundtrip_contract demo None"
  unfolding roundtrip_contract_def
proof (intro conjI allI impI)
  fix a :: sign_args
  assume ok: "sg_res (rangeproof_sign demo None a) \<noteq> 0" and b: "length (sa_blind a) = 32"
  let ?p = "sa_nonce a @ sa_blind a @ replicate (unat (sa_value a)) 0"
  from ok have s: "rangeproof_sign demo None a = \<lparr>sg_res = 1, sg_plen = length ?p, sg_proof = ?p\<rparr>"
    by (simp add: demo_def demo_sign_def Let_def split: if_splits)
  show "sg_plen (rangeproof_sign demo None a) = length (sg_proof (rangeproof_sign demo None a))"
    by (simp add: s)
  have rw: "rangeproof_rewind demo None (sa_nonce a) (sa_commit a) ?p =
      \<lparr>rw_res = 1, rw_blind = sa_blind a, rw_value = sa_value a\<rparr>"
    using b by (simp add: demo_def demo_rewind_def)
  show "rw_res (rangeproof_rewind demo None (sa_nonce a) (sa_commit a)
          (sg_proof (rangeproof_sign demo None a))) \<noteq> 0"
    by (simp add: s rw)
  show "rw_blind (rangeproof_rewind demo None (sa_nonce a) (sa_commit a)
          (sg_proof (rangeproof_sign demo None a))) = sa_blind a"
    by (simp add: s rw)
  show "rw_value (rangeproof_rewind demo None (sa_nonce a) (sa_commit a)
          (sg_proof (rangeproof_sign demo None a))) = sa_value a"
    by (simp add: s rw)
next
  fix k k' :: byte
  show "ECDH demo k (GetPubKey demo k') = ECDH demo k' (GetPubKey demo k)"
    by (simp add: demo_def demo_ecdh_def demo_pubkey_def mult.commute)
next
  fix b a and v :: CTxOutValue
  assume "pedersen_commit demo None b a = Some (vchCommitment v)"
  then have "vchCommitment v = 3 # resize 32 b"
    by (simp add: demo_def)
  then show "\<not> IsAmount demo v"
    by (simp add: demo_def demo_IsAmount_def)
qed (auto simp: demo_def demo_valid_def demo_pubkey_def demo_blind_sum_def resize_def)

theorem C3_round_trip_witness:
  "roundtrip_contract demo None \<and>
   BlindOutputs demo None demo_cfg 0 [replicate 32 9] [[], [], []]
     [demo_pubkey 4, [], demo_pubkey 5] demo_tx = Return (demo_final demo_cfg) \<and>
   IsAmount demo (nValue (vout demo_tx ! 0)) \<and>
   GetAmount demo (nValue (vout demo_tx ! 0)) = 5 \<and>
   MoneyRange demo 5 \<and>
   ret (UnblindOutput demo None 4 (vout (tx (demo_final demo_cfg)) ! 0) 0 []) = 1 \<and>
   amount_out (UnblindOutput demo None 4 (vout (tx (demo_final demo_cfg)) ! 0) 0 []) = 5 \<and>
   length (blinding_factor_out
     (UnblindOutput demo None 4 (vout (tx (demo_final demo_cfg)) ! 0) 0 [])) = 32"
proof -
  have r: "BlindOutputs demo None demo_cfg 0 [replicate 32 9] [[], [], []]
     [demo_pubkey 4, [], demo_pubkey 5] demo_tx = Return (demo_final demo_cfg)"
    by (rule demo_run)
  have i: "0 < length (vout demo_tx)"
    by (simp add: demo_tx_def)
  have e: "IsAmount demo (nValue (vout demo_tx ! 0))"
    by code_simp
  have s: "length (vchCommitment (nValue (vout demo_tx ! 0))) \<le> 33"
    by code_simp
  have a: "GetAmount demo (nValue (vout demo_tx ! 0)) = 5"
    by code_simp
  have m: "5 \<le> MAX_MONEY demo" "MoneyRange demo 5"
    by code_simp+
  have k: "[demo_pubkey 4, [], demo_pubkey 5] ! 0 = GetPubKey demo 4"
    "IsValid demo (GetPubKey demo 4)"
    by (simp_all add: demo_def demo_valid_def demo_pubkey_def)
  from C3_round_trip [OF demo_contract r i e s a m k, of 0 "[]"]
  obtain bf where "length bf = 32"
    and "UnblindOutput demo None 4 (vout (tx (demo_final demo_cfg)) ! 0) 0 [] =
      \<lparr>ret = 1, amount_out = 5, blinding_factor_out = bf\<rparr>"
    by blast
  with demo_contract r e a m(2) show ?thesis by simp
qed

end
